theory Spec2Isabelle
  imports Main
begin

section \<open>JavaScript strings: \<open>split('.')\<close> and \<open>join('.')\<close>\<close>

text \<open>
  \<open>String.prototype.split\<close> with the separator \<open>'.'\<close>: the result has one segment more
  than the string has dots; the empty string gives one empty segment.
\<close>

fun split_dot :: "string \<Rightarrow> string list" where
  "split_dot [] = [[]]"
| "split_dot (c # cs) =
     (if c = CHR ''.'' then [] # split_dot cs
      else (case split_dot cs of [] \<Rightarrow> [[c]] | w # ws \<Rightarrow> (c # w) # ws))"

text \<open>\<open>Array.prototype.join\<close> with the separator \<open>'.'\<close>.\<close>

fun join_dot :: "string list \<Rightarrow> string" where
  "join_dot [] = []"
| "join_dot [x] = x"
| "join_dot (x # y # ys) = x @ CHR ''.'' # join_dot (y # ys)"

section \<open>JavaScript objects used as ordered dictionaries\<close>

text \<open>
  An object such as \<open>FormGroup.controls\<close> or \<open>newControls\<close> is the list of its own
  properties in the order \<open>Object.keys\<close> and \<open>Object.entries\<close> enumerate them: the keys
  that are array indices (canonical decimal numerals below \<open>2^32 - 1\<close>) come first, in
  ascending numeric order, and every other key follows in the order of its creation.
  Assigning to an existing key keeps its place.

  These objects inherit from \<open>Object.prototype\<close>. Reading \<open>o[k]\<close> for a key that is not
  an own property gives what \<open>Object.prototype\<close> has under \<open>k\<close>, a function or an object
  and so truthy, for the names of \<open>object_prototype_names\<close>, and \<open>undefined\<close> for any
  other. Assigning \<open>o['__proto__'] = v\<close> makes no own property: it replaces the prototype
  of \<open>o\<close> (what the accessors of the new prototype then do to later assignments is not
  modelled). \<open>hasOwnProperty\<close>, \<open>Object.keys\<close> and \<open>Object.entries\<close> see own properties
  only.
\<close>

type_synonym key = string
type_synonym 'v obj = "(key \<times> 'v) list"

definition object_prototype_names :: "key list" where
  "object_prototype_names =
     [''constructor'', ''__defineGetter__'', ''__defineSetter__'', ''hasOwnProperty'',
      ''__lookupGetter__'', ''__lookupSetter__'', ''isPrototypeOf'', ''propertyIsEnumerable'',
      ''toString'', ''valueOf'', ''__proto__'', ''toLocaleString'']"

definition inherited :: "key \<Rightarrow> bool" where
  "inherited k = (k \<in> set object_prototype_names)"

definition is_digit :: "char \<Rightarrow> bool" where
  "is_digit c = (c \<in> set ''0123456789'')"

definition array_index_val :: "key \<Rightarrow> nat" where
  "array_index_val k = foldl (\<lambda>a c. 10 * a + (of_char c - 48)) 0 k"

definition is_array_index :: "key \<Rightarrow> bool" where
  "is_array_index k =
     (k \<noteq> [] \<and> list_all is_digit k \<and> (length k = 1 \<or> hd k \<noteq> CHR ''0'')
      \<and> array_index_val k < 4294967295)"

fun obj_replace :: "'v obj \<Rightarrow> key \<Rightarrow> 'v \<Rightarrow> 'v obj" where
  "obj_replace [] k v = []"
| "obj_replace ((k', v') # cs) k v =
     (if k' = k then (k, v) # cs else (k', v') # obj_replace cs k v)"

fun obj_insert_index :: "'v obj \<Rightarrow> key \<Rightarrow> 'v \<Rightarrow> 'v obj" where
  "obj_insert_index [] k v = [(k, v)]"
| "obj_insert_index ((k', v') # cs) k v =
     (if is_array_index k' \<and> array_index_val k' < array_index_val k
      then (k', v') # obj_insert_index cs k v
      else (k, v) # (k', v') # cs)"

text \<open>A key that is neither an array index nor a name that \<open>Object.prototype\<close> has.\<close>

definition ordinary_key :: "key \<Rightarrow> bool" where
  "ordinary_key k = (\<not> is_array_index k \<and> \<not> inherited k)"

text \<open>\<open>o[k] = v\<close>\<close>

definition obj_set :: "'v obj \<Rightarrow> key \<Rightarrow> 'v \<Rightarrow> 'v obj" where
  "obj_set cs k v =
     (if k = ''__proto__'' then cs
      else if map_of cs k \<noteq> None then obj_replace cs k v
      else if is_array_index k then obj_insert_index cs k v
      else cs @ [(k, v)])"

text \<open>\<open>delete o[k]\<close>\<close>

definition obj_delete :: "'v obj \<Rightarrow> key \<Rightarrow> 'v obj" where
  "obj_delete cs k = filter (\<lambda>e. fst e \<noteq> k) cs"

section \<open>Angular form controls\<close>

text \<open>
  The controls come from \<open>@angular/forms\<close>; the service only calls their public methods.
  A control is a tree node: a \<open>FormControl\<close> (a leaf, here with an opaque value) or a
  \<open>FormGroup\<close> with its \<open>controls\<close> object. Of the status only \<open>DISABLED\<close> against the
  rest is kept, as the flag \<open>disabled\<close>. \<open>FormArray\<close>, validators and values of groups are
  left out. The methods follow the documented behaviour of the library:

  \<^item> \<open>get(path)\<close> splits a string at the dots and descends by \<open>_find\<close>, which answers only
    for an own property of a group's \<open>controls\<close>;
  \<^item> \<open>contains(name)\<close> holds for a control that is present and enabled: it reports
    false for a disabled control;
  \<^item> \<open>addControl(name, c)\<close> registers \<open>c\<close> unless \<open>this.controls[name]\<close> is truthy: unless
    a control of that name is present, in which case the group keeps the one it has, or
    the name is one that \<open>Object.prototype\<close> has, in which case nothing is attached;
  \<^item> \<open>removeControl(name)\<close> and \<open>setControl(name, c)\<close> begin with
    \<open>if (this.controls[name]) this.controls[name]._registerOnCollectionChange(...)\<close>, which
    throws a \<open>TypeError\<close> for a name that the group does not own and \<open>Object.prototype\<close>
    has; then \<open>removeControl\<close> deletes the property, and \<open>setControl\<close> deletes it and
    registers \<open>c\<close>. The service calls \<open>removeControl\<close> only with a name that the group
    owns (after \<open>contains\<close>, or taken from \<open>Object.keys\<close>), so it cannot throw there;
    \<open>setControl\<close> is called with any name;
  \<^item> after \<open>addControl\<close>, \<open>removeControl\<close> and \<open>setControl\<close> the group and then each of
    its ancestors runs \<open>updateValueAndValidity\<close>, which recomputes the status: disabled
    when every child is disabled and there is a child, or when there is none and the
    group was disabled;
  \<^item> \<open>disable({onlySelf: true})\<close> disables the control and all its descendants and leaves
    the ancestors alone.
\<close>

datatype control =
    FormControl nat bool
  | FormGroup bool "(key \<times> control) list"

fun disabled :: "control \<Rightarrow> bool" where
  "disabled (FormControl v d) = d"
| "disabled (FormGroup d cs) = d"

definition enabled :: "control \<Rightarrow> bool" where
  "enabled c = (\<not> disabled c)"

fun find_child :: "control \<Rightarrow> key \<Rightarrow> control option" where
  "find_child (FormGroup d cs) name = map_of cs name"
| "find_child (FormControl v d) name = None"

fun find_path :: "control \<Rightarrow> key list \<Rightarrow> control option" where
  "find_path c [] = Some c"
| "find_path c (name # names) =
     (case find_child c name of None \<Rightarrow> None | Some c' \<Rightarrow> find_path c' names)"

definition get :: "control \<Rightarrow> string \<Rightarrow> control option" where
  "get c pth = find_path c (split_dot pth)"

fun contains :: "control \<Rightarrow> key \<Rightarrow> bool" where
  "contains (FormGroup d cs) name =
     (case map_of cs name of None \<Rightarrow> False | Some c \<Rightarrow> enabled c)"
| "contains (FormControl v d) name = False"

fun allControlsDisabled :: "control \<Rightarrow> bool" where
  "allControlsDisabled (FormControl v d) = d"
| "allControlsDisabled (FormGroup d cs) =
     (list_all (\<lambda>e. disabled (snd e)) cs \<and> (cs \<noteq> [] \<or> d))"

fun updateValueAndValidity :: "control \<Rightarrow> control" where
  "updateValueAndValidity (FormControl v d) = FormControl v d"
| "updateValueAndValidity (FormGroup d cs) =
     FormGroup (allControlsDisabled (FormGroup d cs)) cs"

fun registerControl :: "key \<Rightarrow> control \<Rightarrow> control \<Rightarrow> control" where
  "registerControl name c (FormGroup d cs) =
     (if map_of cs name \<noteq> None \<or> inherited name then FormGroup d cs
      else FormGroup d (obj_set cs name c))"
| "registerControl name c (FormControl v d) = FormControl v d"

fun deleteControl :: "key \<Rightarrow> control \<Rightarrow> control" where
  "deleteControl name (FormGroup d cs) = FormGroup d (obj_delete cs name)"
| "deleteControl name (FormControl v d) = FormControl v d"

primrec disable :: "control \<Rightarrow> control" where
  "disable (FormControl v d) = FormControl v True"
| "disable (FormGroup d cs) = FormGroup True (map (map_prod id disable) cs)"

subsection \<open>Object references\<close>

text \<open>
  The service holds references to groups inside \<open>mainForm\<close> and mutates them in place.
  A reference is the address of the object: the names of the children that lead to it
  from \<open>mainForm\<close>. \<open>update_at up r f\<close> applies \<open>f\<close> to the object at the address \<open>r\<close> and
  then \<open>up\<close> to each of its ancestors, the nearest first; an address that leads nowhere
  changes nothing.
\<close>

type_synonym ref = "key list"

fun update_at :: "(control \<Rightarrow> control) \<Rightarrow> ref \<Rightarrow> (control \<Rightarrow> control) \<Rightarrow> control \<Rightarrow> control" where
  "update_at up [] f c = f c"
| "update_at up (name # r) f (FormGroup d cs) =
     (case map_of cs name of
        None \<Rightarrow> FormGroup d cs
      | Some c \<Rightarrow> up (FormGroup d (obj_replace cs name (update_at up r f c))))"
| "update_at up (name # r) f (FormControl v d) = FormControl v d"

definition addControl :: "ref \<Rightarrow> key \<Rightarrow> control \<Rightarrow> control \<Rightarrow> control" where
  "addControl r name c root =
     update_at updateValueAndValidity r
       (\<lambda>g. updateValueAndValidity (registerControl name c g)) root"

definition removeControl :: "ref \<Rightarrow> key \<Rightarrow> control \<Rightarrow> control" where
  "removeControl r name root =
     update_at updateValueAndValidity r
       (\<lambda>g. updateValueAndValidity (deleteControl name g)) root"

datatype error = TypeError

definition setControl :: "ref \<Rightarrow> key \<Rightarrow> control \<Rightarrow> control \<Rightarrow> error + control" where
  "setControl r name c root =
     (case find_path root r of
        None \<Rightarrow> Inr root
      | Some g \<Rightarrow>
          if find_child g name = None \<and> inherited name then Inl TypeError
          else Inr (update_at updateValueAndValidity r
                 (\<lambda>g. updateValueAndValidity (registerControl name c (deleteControl name g)))
                 root))"

definition disable_onlySelf :: "ref \<Rightarrow> control \<Rightarrow> control" where
  "disable_onlySelf r root = update_at id r disable root"

section \<open>The event record and the rxjs subject\<close>

datatype event_type = form | formElement

record FormEvent =
  type :: event_type
  path :: string
  control :: "control option"

text \<open>
  The \<open>control\<close> of an event is the control object itself, so in the code an entry of the
  history shows what became of that control since. The record holds the control as it
  is when the event is built; statements about events are about that moment.

  A \<open>Subject\<close> keeps the observers that are subscribed now; \<open>next\<close> hands the value to
  each of them before it returns, and a new observer is handed nothing of the past.
  A subscription is kept under its number with what it has been handed so far, in
  order; subscribing under a number in use changes nothing. \<open>subject_next\<close> is \<open>next\<close>
  when the handlers only record what they are handed; handlers that call the service
  are the matter of \<open>steps\<close> below.
\<close>

type_synonym subject = "(nat \<times> FormEvent list) list"

definition subject_next :: "FormEvent \<Rightarrow> subject \<Rightarrow> subject" where
  "subject_next e obs = map (\<lambda>ob. (fst ob, snd ob @ [e])) obs"

definition subject_subscribe :: "nat \<Rightarrow> subject \<Rightarrow> subject" where
  "subject_subscribe i obs = (if i \<in> fst ` set obs then obs else obs @ [(i, [])])"

definition subject_unsubscribe :: "nat \<Rightarrow> subject \<Rightarrow> subject" where
  "subject_unsubscribe i obs = filter (\<lambda>ob. fst ob \<noteq> i) obs"

section \<open>FormService\<close>

record FormService =
  mainForm :: control
  formEventSubject :: subject
  eventHistory :: "FormEvent list"

text \<open>The constructor: \<open>this.mainForm = this.fb.group({})\<close>.\<close>

definition new_FormService :: FormService where
  "new_FormService =
     \<lparr>mainForm = FormGroup False [], formEventSubject = [], eventHistory = []\<rparr>"

text \<open>A path parameter is \<open>string | string[]\<close>.\<close>

datatype path_arg = PStr string | PArr "string list"

fun normalizePath :: "path_arg \<Rightarrow> string list" where
  "normalizePath (PStr s) = split_dot s"
| "normalizePath (PArr ks) = ks"

text \<open>
  The loop of \<open>getNestedForm\<close>. The current group is carried with its address, so that
  the caller can mutate the group it gets.
\<close>

fun getNestedForm_loop :: "ref \<times> control \<Rightarrow> key list \<Rightarrow> (ref \<times> control) option" where
  "getNestedForm_loop cur [] = Some cur"
| "getNestedForm_loop (r, g) (k # ks) =
     (case get g k of
        Some (FormGroup d cs) \<Rightarrow> getNestedForm_loop (r @ split_dot k, FormGroup d cs) ks
      | _ \<Rightarrow> None)"

definition getNestedForm :: "FormService \<Rightarrow> path_arg \<Rightarrow> (ref \<times> control) option" where
  "getNestedForm s pth = getNestedForm_loop ([], mainForm s) (normalizePath pth)"

fun getControl_loop :: "ref \<times> control \<Rightarrow> key list \<Rightarrow> (ref \<times> control) option" where
  "getControl_loop cur [] = Some cur"
| "getControl_loop (r, c) (k # ks) =
     (case get c k of
        Some c' \<Rightarrow> getControl_loop (r @ split_dot k, c') ks
      | None \<Rightarrow> None)"

definition getControl_ref :: "FormService \<Rightarrow> path_arg \<Rightarrow> (ref \<times> control) option" where
  "getControl_ref s pth = getControl_loop ([], mainForm s) (normalizePath pth)"

definition getControl :: "FormService \<Rightarrow> path_arg \<Rightarrow> control option" where
  "getControl s pth = map_option snd (getControl_ref s pth)"

definition getForm :: "FormService \<Rightarrow> control" where
  "getForm s = mainForm s"

definition getFormEventHistory :: "FormService \<Rightarrow> FormEvent list" where
  "getFormEventHistory s = eventHistory s"

text \<open>\<open>eventHistory.push(event); formEventSubject.next(event)\<close>\<close>

definition emit :: "FormEvent \<Rightarrow> FormService \<Rightarrow> FormService" where
  "emit e s =
     s\<lparr>eventHistory := eventHistory s @ [e],
       formEventSubject := subject_next e (formEventSubject s)\<rparr>"

definition registerRootForms :: "string \<Rightarrow> control \<Rightarrow> FormService \<Rightarrow> error + FormService" where
  "registerRootForms name formGroup s =
     (case setControl [] name formGroup (mainForm s) of
        Inl e \<Rightarrow> Inl e
      | Inr root \<Rightarrow>
          Inr (emit \<lparr>type = form, path = name, control = None\<rparr> (s\<lparr>mainForm := root\<rparr>)))"

text \<open>
  The fourth parameter of \<open>registerFormElement\<close>:
  \<open>boolean | { overwrite?: boolean; insertAtIndex?: number }\<close>. An index is taken to be
  an integer.
\<close>

datatype options_arg = Overwrite bool | Options "bool option" "int option"

fun overwrite_of :: "options_arg \<Rightarrow> bool" where
  "overwrite_of (Overwrite b) = b"
| "overwrite_of (Options ov ix) = (case ov of None \<Rightarrow> False | Some b \<Rightarrow> b)"

fun insertAtIndex_of :: "options_arg \<Rightarrow> int option" where
  "insertAtIndex_of (Overwrite b) = None"
| "insertAtIndex_of (Options ov ix) = ix"

text \<open>
  The \<open>keys.forEach((key, i) => ...)\<close> that fills \<open>newControls\<close>, from the counter \<open>i\<close> on.
\<close>

fun newControls_loop ::
  "key list \<Rightarrow> nat \<Rightarrow> control obj \<Rightarrow> int \<Rightarrow> key \<Rightarrow> control \<Rightarrow> control obj \<Rightarrow> control obj" where
  "newControls_loop [] i controls insertAtIndex controlName ctl newControls = newControls"
| "newControls_loop (k # ks) i controls insertAtIndex controlName ctl newControls =
     (let nc1 = (if int i = insertAtIndex then obj_set newControls controlName ctl
                 else newControls);
          nc2 = (case map_of controls k of None \<Rightarrow> nc1 | Some c \<Rightarrow> obj_set nc1 k c)
      in newControls_loop ks (Suc i) controls insertAtIndex controlName ctl nc2)"

fun controls_of :: "control \<Rightarrow> control obj" where
  "controls_of (FormGroup d cs) = cs"
| "controls_of (FormControl v d) = []"

text \<open>The branch of \<open>registerFormElement\<close> that rebuilds the group in the new order.\<close>

definition insert_ordered :: "ref \<Rightarrow> int \<Rightarrow> key \<Rightarrow> control \<Rightarrow> control \<Rightarrow> control" where
  "insert_ordered r insertAtIndex controlName ctl root =
     (case find_path root r of
        None \<Rightarrow> root
      | Some formGroup \<Rightarrow>
          let keys = map fst (controls_of formGroup);
              nc = newControls_loop keys 0 (controls_of formGroup) insertAtIndex
                     controlName ctl [];
              newControls = (if insertAtIndex \<ge> int (length keys)
                             then obj_set nc controlName ctl else nc);
              root1 = fold (\<lambda>k t. removeControl r k t) keys root
          in fold (\<lambda>e t. addControl r (fst e) (snd e) t) newControls root1)"

definition registerFormElement ::
  "path_arg \<Rightarrow> string \<Rightarrow> control \<Rightarrow> options_arg \<Rightarrow> FormService
     \<Rightarrow> FormEvent option \<times> FormService" where
  "registerFormElement pth controlName ctl optionsOrOverwrite s =
     (let normalizedPath = normalizePath pth in
      case getNestedForm s (PArr normalizedPath) of
        None \<Rightarrow> (None, s)
      | Some (r, formGroup) \<Rightarrow>
          let overwrite = overwrite_of optionsOrOverwrite;
              insertAtIndex = insertAtIndex_of optionsOrOverwrite;
              exists = contains formGroup controlName
          in if \<not> exists \<or> overwrite then
               let root1 = (if exists then removeControl r controlName (mainForm s)
                            else mainForm s);
                   root2 = (case insertAtIndex of
                              None \<Rightarrow> addControl r controlName ctl root1
                            | Some ix \<Rightarrow>
                                if ix \<ge> 0 then insert_ordered r ix controlName ctl root1
                                else addControl r controlName ctl root1);
                   event = \<lparr>type = formElement,
                            path = join_dot (normalizedPath @ [controlName]),
                            control = Some ctl\<rparr>
               in (Some event, emit event (s\<lparr>mainForm := root2\<rparr>))
             else (None, s))"

text \<open>
  \<open>Array.prototype.pop\<close>: the last element, if there is one, and the array as it is left,
  shortened in place. \<open>normalizePath\<close> returns an array argument itself, so the array
  that \<open>removeFormElement\<close> shortens is the caller's: \<open>removeFormElement\<close> gives the
  result and the service after the call, \<open>removeFormElement_call\<close> also the argument as
  the call leaves it.
\<close>

definition pop :: "'a list \<Rightarrow> 'a option \<times> 'a list" where
  "pop xs = (if xs = [] then (None, []) else (Some (last xs), butlast xs))"

definition removeFormElement :: "path_arg \<Rightarrow> FormService \<Rightarrow> bool \<times> FormService" where
  "removeFormElement pth s =
     (case pop (normalizePath pth) of
        (controlName, keys) \<Rightarrow>
          (case getNestedForm s (PArr keys) of
             None \<Rightarrow> (False, s)
           | Some (r, parentGroup) \<Rightarrow>
               (case controlName of
                  None \<Rightarrow> (False, s)
                | Some name \<Rightarrow>
                    if name \<noteq> [] \<and> contains parentGroup name
                    then (True, s\<lparr>mainForm := removeControl r name (mainForm s)\<rparr>)
                    else (False, s))))"

fun path_after_pop :: "path_arg \<Rightarrow> path_arg" where
  "path_after_pop (PStr str) = PStr str"
| "path_after_pop (PArr ks) = PArr (snd (pop ks))"

definition removeFormElement_call ::
  "path_arg \<Rightarrow> FormService \<Rightarrow> (bool \<times> FormService) \<times> path_arg" where
  "removeFormElement_call pth s = (removeFormElement pth s, path_after_pop pth)"

text \<open>
  \<open>disableAllExcept\<close>: \<open>form.get(controlName)?.disable({emitEvent: false, onlySelf: true})\<close>
  for each key of the group that \<open>exceptions\<close> does not include. \<open>get\<close> reads the group as
  it is at that step.
\<close>

definition disable_step :: "ref \<Rightarrow> string list \<Rightarrow> key \<Rightarrow> control \<Rightarrow> control" where
  "disable_step r exceptions controlName root =
     (if controlName \<in> set exceptions then root
      else (case find_path root (r @ split_dot controlName) of
              None \<Rightarrow> root
            | Some c \<Rightarrow> disable_onlySelf (r @ split_dot controlName) root))"

definition disableAllExcept :: "string \<Rightarrow> string list \<Rightarrow> FormService \<Rightarrow> FormService" where
  "disableAllExcept formPath exceptions s =
     (case getControl_ref s (PStr formPath) of
        Some (r, FormGroup d cs) \<Rightarrow>
          s\<lparr>mainForm := fold (disable_step r exceptions) (map fst cs) (mainForm s)\<rparr>
      | _ \<Rightarrow> s)"

section \<open>Calls on one service, in sequence\<close>

text \<open>
  The public operations, and the two things an observer does with the observable that
  \<open>getFormEventObservable\<close> returns. \<open>call_result\<close> gives the event that the call hands
  to the subject, if it does (for \<open>registerRootForms\<close>, which returns nothing, the event
  it builds), and the state after the call, for observers that only record. A call
  that throws leaves the service as it was and hands over no event.
\<close>

datatype call =
    RegisterRootForms string control
  | RegisterFormElement path_arg string control options_arg
  | RemoveFormElement path_arg
  | GetControl path_arg
  | GetForm
  | GetFormEventHistory
  | DisableAllExcept string "string list"
  | Subscribe nat
  | Unsubscribe nat

fun call_result :: "call \<Rightarrow> FormService \<Rightarrow> FormEvent option \<times> FormService" where
  "call_result (RegisterRootForms name formGroup) s =
     (case registerRootForms name formGroup s of
        Inl e \<Rightarrow> (None, s)
      | Inr s' \<Rightarrow> (Some \<lparr>type = form, path = name, control = None\<rparr>, s'))"
| "call_result (RegisterFormElement pth controlName ctl opts) s =
     registerFormElement pth controlName ctl opts s"
| "call_result (RemoveFormElement pth) s = (None, snd (removeFormElement pth s))"
| "call_result (GetControl pth) s = (None, s)"
| "call_result GetForm s = (None, s)"
| "call_result GetFormEventHistory s = (None, s)"
| "call_result (DisableAllExcept formPath exceptions) s =
     (None, disableAllExcept formPath exceptions s)"
| "call_result (Subscribe i) s =
     (None, s\<lparr>formEventSubject := subject_subscribe i (formEventSubject s)\<rparr>)"
| "call_result (Unsubscribe i) s =
     (None, s\<lparr>formEventSubject := subject_unsubscribe i (formEventSubject s)\<rparr>)"

fun run :: "call list \<Rightarrow> FormService \<Rightarrow> FormService" where
  "run [] s = s"
| "run (c # cs) s = run cs (snd (call_result c s))"


subsection \<open>Handlers that call the service\<close>






text \<open>The observer \<open>i\<close> is handed \<open>e\<close>: what it records, before its handler makes its calls.\<close>

definition hand_obs :: "FormEvent \<Rightarrow> nat \<Rightarrow> subject \<Rightarrow> subject" where
  "hand_obs e i obs = map (\<lambda>ob. if fst ob = i then (i, snd ob @ [e]) else ob) obs"

definition hand :: "nat \<Rightarrow> FormEvent \<Rightarrow> FormService \<Rightarrow> FormService" where
  "hand i e s = s\<lparr>formEventSubject := hand_obs e i (formEventSubject s)\<rparr>"



text \<open>What the observer \<open>i\<close> has been handed so far, if it is subscribed.\<close>

definition received :: "FormService \<Rightarrow> nat \<Rightarrow> FormEvent list option" where
  "received s i = map_of (formEventSubject s) i"

section \<open>Vocabulary of the properties\<close>

fun is_FormGroup :: "control \<Rightarrow> bool" where
  "is_FormGroup (FormGroup d cs) = True"
| "is_FormGroup (FormControl v d) = False"


text \<open>The path \<open>p\<close> with the key \<open>k\<close> appended: \<open>p + '.' + k\<close>, or \<open>[...p, k]\<close>.\<close>

fun append_key :: "path_arg \<Rightarrow> key \<Rightarrow> path_arg" where
  "append_key (PStr str) k = PStr (str @ CHR ''.'' # k)"
| "append_key (PArr ks) k = PArr (ks @ [k])"

text \<open>A service with the root form \<open>main\<close>, its control \<open>a\<close>, and one observer.\<close>

definition demo :: FormService where
  "demo =
     \<lparr>mainForm = FormGroup False [(''main'', FormGroup False [(''a'', FormControl 1 False)])],
      formEventSubject = [(0, [])],
      eventHistory = [\<lparr>type = form, path = ''main'', control = None\<rparr>]\<rparr>"

text \<open>
  The effect of \<open>registerControl\<close> on the \<open>controls\<close> object, and the \<open>controls\<close> that
  the ordered branch of \<open>registerFormElement\<close> leaves in a group that had \<open>cs\<close>: the
  properties of \<open>newControls\<close>, registered one by one in a group emptied before.
\<close>

definition obj_add :: "'v obj \<Rightarrow> key \<Rightarrow> 'v \<Rightarrow> 'v obj" where
  "obj_add cs k v = (if map_of cs k \<noteq> None \<or> inherited k then cs else obj_set cs k v)"

definition newControls_of :: "control obj \<Rightarrow> int \<Rightarrow> key \<Rightarrow> control \<Rightarrow> control obj" where
  "newControls_of cs ix k c =
     (let nc = newControls_loop (map fst cs) 0 cs ix k c []
      in if ix \<ge> int (length (map fst cs)) then obj_set nc k c else nc)"

definition spliced :: "control obj \<Rightarrow> int \<Rightarrow> key \<Rightarrow> control \<Rightarrow> control obj" where
  "spliced cs ix k c = fold (\<lambda>e acc. obj_add acc (fst e) (snd e)) (newControls_of cs ix k c) []"

text \<open>
  The \<open>controls\<close> that a call of \<open>registerFormElement\<close> which gets past its guard leaves in
  the group it resolved.
\<close>

definition registered_controls :: "key \<Rightarrow> control \<Rightarrow> options_arg \<Rightarrow> control \<Rightarrow> control obj" where
  "registered_controls k c opts g =
     (let cs1 = (if contains g k then obj_delete (controls_of g) k else controls_of g)
      in case insertAtIndex_of opts of
           None \<Rightarrow> obj_add cs1 k c
         | Some ix \<Rightarrow> if ix \<ge> 0 then spliced cs1 ix k c else obj_add cs1 k c)"

text \<open>
  The effect of one step of \<open>disableAllExcept\<close> on the \<open>controls\<close> of the group, for a key
  without a dot.
\<close>

definition disable_key :: "string list \<Rightarrow> key \<Rightarrow> control obj \<Rightarrow> control obj" where
  "disable_key exceptions k cs =
     (if k \<in> set exceptions then cs
      else (case map_of cs k of None \<Rightarrow> cs | Some c \<Rightarrow> obj_replace cs k (disable c)))"

text \<open>
  Services reached by calls on a new one: one whose form \<open>main\<close> holds the controls \<open>a\<close>
  and \<open>b\<close>, the same with \<open>a\<close> disabled, one whose form holds a control under the empty
  key, and one whose form holds a control under a key with a dot.
\<close>

definition demo_two :: FormService where
  "demo_two =
     run [RegisterRootForms ''main'' (FormGroup False []),
          RegisterFormElement (PStr ''main'') ''a'' (FormControl 1 False) (Overwrite False),
          RegisterFormElement (PStr ''main'') ''b'' (FormControl 2 False) (Overwrite False)]
       new_FormService"

definition demo_disabled :: FormService where
  "demo_disabled = run [DisableAllExcept ''main'' [''b'']] demo_two"

definition demo_empty_key :: FormService where
  "demo_empty_key =
     run [RegisterRootForms ''main'' (FormGroup False []),
          RegisterFormElement (PStr ''main'') [] (FormControl 1 False) (Overwrite False)]
       new_FormService"

definition demo_dotted_key :: FormService where
  "demo_dotted_key =
     run [RegisterRootForms ''main'' (FormGroup False []),
          RegisterFormElement (PStr ''main'') ''a.b'' (FormControl 1 False) (Overwrite False)]
       new_FormService"


section \<open>Evaluation\<close>

lemmas eval_defs =
  registerFormElement_def getNestedForm_def get_def getControl_def getControl_ref_def
  removeFormElement_def pop_def addControl_def removeControl_def setControl_def
  disable_onlySelf_def insert_ordered_def obj_set_def obj_delete_def emit_def
  subject_next_def subject_subscribe_def subject_unsubscribe_def enabled_def
  is_array_index_def is_digit_def array_index_val_def registerRootForms_def
  disableAllExcept_def disable_step_def new_FormService_def getFormEventHistory_def
  received_def inherited_def object_prototype_names_def hand_def hand_obs_def
  removeFormElement_call_def
  Let_def

section \<open>The example services\<close>

lemma demo_two_eq:
  "demo_two =
     \<lparr>mainForm = FormGroup False
        [(''main'', FormGroup False [(''a'', FormControl 1 False), (''b'', FormControl 2 False)])],
      formEventSubject = [],
      eventHistory =
        [\<lparr>type = form, path = ''main'', control = None\<rparr>,
         \<lparr>type = formElement, path = ''main.a'', control = Some (FormControl 1 False)\<rparr>,
         \<lparr>type = formElement, path = ''main.b'', control = Some (FormControl 2 False)\<rparr>]\<rparr>"
  by (simp add: demo_two_def eval_defs)

lemma demo_disabled_eq:
  "demo_disabled =
     demo_two\<lparr>mainForm := FormGroup False
        [(''main'', FormGroup False [(''a'', FormControl 1 True), (''b'', FormControl 2 False)])]\<rparr>"
  by (simp add: demo_disabled_def demo_two_eq eval_defs)


lemma demo_empty_key_eq:
  "demo_empty_key =
     \<lparr>mainForm = FormGroup False [(''main'', FormGroup False [([], FormControl 1 False)])],
      formEventSubject = [],
      eventHistory =
        [\<lparr>type = form, path = ''main'', control = None\<rparr>,
         \<lparr>type = formElement, path = ''main.'', control = Some (FormControl 1 False)\<rparr>]\<rparr>"
  by (simp add: demo_empty_key_def eval_defs)

lemma demo_dotted_key_eq:
  "demo_dotted_key =
     \<lparr>mainForm = FormGroup False [(''main'', FormGroup False [(''a.b'', FormControl 1 False)])],
      formEventSubject = [],
      eventHistory =
        [\<lparr>type = form, path = ''main'', control = None\<rparr>,
         \<lparr>type = formElement, path = ''main.a.b'', control = Some (FormControl 1 False)\<rparr>]\<rparr>"
  by (simp add: demo_dotted_key_def eval_defs)

section \<open>Strings\<close>

lemma split_dot_not_Nil: "split_dot w \<noteq> []"
  by (induction w) (auto split: list.splits)

lemma split_dot_no_dot: "CHR ''.'' \<notin> set w \<Longrightarrow> split_dot w = [w]"
  by (induction w) auto

lemma split_dot_append_dot: "split_dot (a @ CHR ''.'' # b) = split_dot a @ split_dot b"
proof (induction a)
  case Nil
  show ?case by simp
next
  case (Cons c a)
  obtain w ws where w: "split_dot a = w # ws"
    using split_dot_not_Nil [of a] by (cases "split_dot a") auto
  show ?case using Cons w by simp
qed

lemma split_dot_join_dot:
  "segs \<noteq> [] \<Longrightarrow> \<forall>seg\<in>set segs. CHR ''.'' \<notin> set seg \<Longrightarrow> split_dot (join_dot segs) = segs"
proof (induction segs rule: join_dot.induct)
  case 1
  then show ?case by simp
next
  case (2 x)
  then show ?case by (simp add: split_dot_no_dot)
next
  case (3 x y ys)
  then show ?case by (simp add: split_dot_append_dot split_dot_no_dot)
qed

section \<open>Objects\<close>

lemma map_of_obj_replace:
  "map_of (obj_replace cs k v) k' = (if k' = k \<and> map_of cs k \<noteq> None then Some v else map_of cs k')"
  by (induction cs) auto

lemma keys_obj_replace: "map fst (obj_replace cs k v) = map fst cs"
  by (induction cs) auto


lemma inherited_proto: "inherited ''__proto__''"
  by (simp add: inherited_def object_prototype_names_def)

lemma not_inherited_proto: "\<not> inherited k \<Longrightarrow> k \<noteq> ''__proto__''"
  using inherited_proto by auto


lemma map_of_obj_delete:
  "map_of (obj_delete cs k) k' = (if k' = k then None else map_of cs k')"
  by (induction cs) (auto simp: obj_delete_def)

lemma obj_set_fresh:
  "map_of cs k = None \<Longrightarrow> \<not> is_array_index k \<Longrightarrow> \<not> inherited k \<Longrightarrow>
   obj_set cs k v = cs @ [(k, v)]"
  by (simp add: obj_set_def not_inherited_proto)

section \<open>Controls\<close>

lemma find_child_updateValueAndValidity [simp]:
  "find_child (updateValueAndValidity c) name = find_child c name"
  by (cases c) simp_all

lemma controls_of_updateValueAndValidity [simp]:
  "controls_of (updateValueAndValidity c) = controls_of c"
  by (cases c) simp_all

lemma is_FormGroup_updateValueAndValidity [simp]:
  "is_FormGroup (updateValueAndValidity c) = is_FormGroup c"
  by (cases c) simp_all

lemma find_path_append:
  "find_path c (r @ r') = (case find_path c r of None \<Rightarrow> None | Some c' \<Rightarrow> find_path c' r')"
  by (induction r arbitrary: c) (auto split: option.splits)

lemma find_path_update_at:
  assumes up: "\<And>c name. find_child (up c) name = find_child c name"
  shows "find_path root r = Some g \<Longrightarrow> find_path (update_at up r f root) r = Some (f g)"
proof (induction r arbitrary: root)
  case Nil
  then show ?case by simp
next
  case (Cons name r)
  then obtain d cs c where root: "root = FormGroup d cs" and c: "map_of cs name = Some c"
    and g: "find_path c r = Some g"
    by (cases root) (auto split: option.splits)
  have "find_path (update_at up r f c) r = Some (f g)" using Cons.IH g by simp
  then show ?case using root c by (simp add: up map_of_obj_replace)
qed

lemma getNestedForm_loop_Some:
  "getNestedForm_loop (r0, g0) ks = Some (r, g) \<Longrightarrow>
   r = r0 @ concat (map split_dot ks) \<and> find_path g0 (concat (map split_dot ks)) = Some g
   \<and> (ks \<noteq> [] \<longrightarrow> is_FormGroup g)"
proof (induction ks arbitrary: r0 g0)
  case Nil
  then show ?case by simp
next
  case (Cons k ks)
  from Cons.prems obtain d cs where k: "get g0 k = Some (FormGroup d cs)"
    and rest: "getNestedForm_loop (r0 @ split_dot k, FormGroup d cs) ks = Some (r, g)"
    by (auto split: option.splits control.splits)
  from Cons.IH [OF rest] have ih: "r = (r0 @ split_dot k) @ concat (map split_dot ks)"
    "find_path (FormGroup d cs) (concat (map split_dot ks)) = Some g"
    "ks \<noteq> [] \<longrightarrow> is_FormGroup g" by simp_all
  have "is_FormGroup g"
  proof (cases ks)
    case Nil
    then show ?thesis using ih(2) by auto
  next
    case (Cons a list)
    then show ?thesis using ih(3) by simp
  qed
  then show ?case using ih k by (simp add: get_def find_path_append)
qed

lemma getControl_loop_eq:
  "getControl_loop (r0, c0) ks =
     (case find_path c0 (concat (map split_dot ks)) of
        None \<Rightarrow> None
      | Some c \<Rightarrow> Some (r0 @ concat (map split_dot ks), c))"
  by (induction ks arbitrary: r0 c0) (auto simp: get_def find_path_append split: option.splits)

section \<open>Mutations at an address\<close>

lemma controls_of_registerControl:
  "is_FormGroup g \<Longrightarrow> controls_of (registerControl name c g) = obj_add (controls_of g) name c"
  by (cases g) (simp_all add: obj_add_def)

lemma is_FormGroup_registerControl [simp]:
  "is_FormGroup (registerControl name c g) = is_FormGroup g"
  by (cases g) simp_all

lemma controls_of_deleteControl:
  "controls_of (deleteControl name g) = obj_delete (controls_of g) name"
  by (cases g) (simp_all add: obj_delete_def)

lemma is_FormGroup_deleteControl [simp]:
  "is_FormGroup (deleteControl name g) = is_FormGroup g"
  by (cases g) simp_all

lemma find_path_addControl:
  "find_path root r = Some g \<Longrightarrow>
   find_path (addControl r name c root) r = Some (updateValueAndValidity (registerControl name c g))"
  unfolding addControl_def by (rule find_path_update_at) simp_all

lemma find_path_removeControl:
  "find_path root r = Some g \<Longrightarrow>
   find_path (removeControl r name root) r = Some (updateValueAndValidity (deleteControl name g))"
  unfolding removeControl_def by (rule find_path_update_at) simp_all

lemma find_path_setControl:
  assumes "find_path root r = Some g" and "setControl r name c root = Inr root'"
  shows "find_path root' r
     = Some (updateValueAndValidity (registerControl name c (deleteControl name g)))"
proof -
  have "root' = update_at updateValueAndValidity r
      (\<lambda>g. updateValueAndValidity (registerControl name c (deleteControl name g))) root"
    using assms by (simp add: setControl_def split: if_splits)
  then show ?thesis using assms(1) by (simp add: find_path_update_at)
qed

lemma fold_removeControl:
  "find_path root r = Some g \<Longrightarrow>
   \<exists>g'. find_path (fold (\<lambda>k t. removeControl r k t) ks root) r = Some g'
        \<and> is_FormGroup g' = is_FormGroup g
        \<and> controls_of g' = filter (\<lambda>e. fst e \<notin> set ks) (controls_of g)"
proof (induction ks arbitrary: root g)
  case Nil
  then show ?case by simp
next
  case (Cons k ks)
  let ?g1 = "updateValueAndValidity (deleteControl k g)"
  have "find_path (removeControl r k root) r = Some ?g1"
    using Cons.prems by (rule find_path_removeControl)
  from Cons.IH [OF this] obtain g' where
    g': "find_path (fold (\<lambda>k t. removeControl r k t) ks (removeControl r k root)) r = Some g'"
    "is_FormGroup g' = is_FormGroup ?g1"
    "controls_of g' = filter (\<lambda>e. fst e \<notin> set ks) (controls_of ?g1)"
    by blast
  have "filter (\<lambda>e. fst e \<notin> set ks) (controls_of ?g1)
          = filter (\<lambda>e. fst e \<notin> set (k # ks)) (controls_of g)"
    by (auto simp: controls_of_deleteControl obj_delete_def intro: filter_cong)
  then show ?case using g' by simp
qed

lemma fold_addControl:
  "find_path root r = Some g \<Longrightarrow> is_FormGroup g \<Longrightarrow>
   \<exists>g'. find_path (fold (\<lambda>e t. addControl r (fst e) (snd e) t) es root) r = Some g'
        \<and> is_FormGroup g'
        \<and> controls_of g' = fold (\<lambda>e acc. obj_add acc (fst e) (snd e)) es (controls_of g)"
proof (induction es arbitrary: root g)
  case Nil
  then show ?case by simp
next
  case (Cons e es)
  let ?g1 = "updateValueAndValidity (registerControl (fst e) (snd e) g)"
  have 1: "find_path (addControl r (fst e) (snd e) root) r = Some ?g1"
    using Cons.prems(1) by (rule find_path_addControl)
  have 2: "is_FormGroup ?g1" using Cons.prems(2) by simp
  from Cons.IH [OF 1 2] obtain g' where
    g': "find_path (fold (\<lambda>e t. addControl r (fst e) (snd e) t) es
            (addControl r (fst e) (snd e) root)) r = Some g'"
    "is_FormGroup g'"
    "controls_of g' = fold (\<lambda>e acc. obj_add acc (fst e) (snd e)) es (controls_of ?g1)"
    by blast
  then show ?case using Cons.prems(2) by (simp add: controls_of_registerControl)
qed

lemma find_path_insert_ordered:
  assumes "find_path root r = Some g" and "is_FormGroup g"
  shows "\<exists>g'. find_path (insert_ordered r ix k c root) r = Some g' \<and> is_FormGroup g'
           \<and> controls_of g' = spliced (controls_of g) ix k c"
proof -
  let ?keys = "map fst (controls_of g)"
  let ?root1 = "fold (\<lambda>k t. removeControl r k t) ?keys root"
  from fold_removeControl [OF assms(1), of ?keys] obtain g1 where
    g1: "find_path ?root1 r = Some g1" "is_FormGroup g1 = is_FormGroup g"
    "controls_of g1 = filter (\<lambda>e. fst e \<notin> set ?keys) (controls_of g)"
    by blast
  have empty: "controls_of g1 = []" using g1(3) by (auto simp: filter_empty_conv)
  have grp: "is_FormGroup g1" using g1(2) assms(2) by simp
  from fold_addControl [OF g1(1) grp, of "newControls_of (controls_of g) ix k c"]
  obtain g' where
    g': "find_path (fold (\<lambda>e t. addControl r (fst e) (snd e) t)
            (newControls_of (controls_of g) ix k c) ?root1) r = Some g'"
    "is_FormGroup g'"
    "controls_of g' = fold (\<lambda>e acc. obj_add acc (fst e) (snd e))
        (newControls_of (controls_of g) ix k c) (controls_of g1)"
    by blast
  have "insert_ordered r ix k c root
          = fold (\<lambda>e t. addControl r (fst e) (snd e) t)
              (newControls_of (controls_of g) ix k c) ?root1"
    using assms(1) by (simp add: insert_ordered_def newControls_of_def Let_def)
  then show ?thesis using g' empty by (simp add: spliced_def)
qed

section \<open>What the operations do\<close>

lemma mainForm_emit [simp]: "mainForm (emit e s) = mainForm s"
  by (simp add: emit_def)

lemma eventHistory_emit [simp]: "eventHistory (emit e s) = eventHistory s @ [e]"
  by (simp add: emit_def)

lemma formEventSubject_emit [simp]:
  "formEventSubject (emit e s) = subject_next e (formEventSubject s)"
  by (simp add: emit_def)

lemma getNestedForm_Some:
  "getNestedForm s (PArr ks) = Some (r, g) \<Longrightarrow>
   r = concat (map split_dot ks) \<and> find_path (mainForm s) r = Some g
   \<and> (ks \<noteq> [] \<longrightarrow> is_FormGroup g)"
  using getNestedForm_loop_Some [of "[]" "mainForm s" ks r g]
  by (simp add: getNestedForm_def)

lemma getControl_eq:
  "getControl s pth = find_path (mainForm s) (concat (map split_dot (normalizePath pth)))"
  by (simp add: getControl_def getControl_ref_def getControl_loop_eq split: option.splits)

lemma registerFormElement_cases:
  "registerFormElement pth k c opts s = (None, s)
   \<or> (\<exists>root2. registerFormElement pth k c opts s =
        (Some \<lparr>type = formElement, path = join_dot (normalizePath pth @ [k]), control = Some c\<rparr>,
         emit \<lparr>type = formElement, path = join_dot (normalizePath pth @ [k]), control = Some c\<rparr>
           (s\<lparr>mainForm := root2\<rparr>)))"
  by (auto simp: registerFormElement_def Let_def split: option.splits prod.splits)

lemma registerFormElement_None_iff:
  "fst (registerFormElement pth k c opts s) = None \<longleftrightarrow>
     (case getNestedForm s (PArr (normalizePath pth)) of
        None \<Rightarrow> True
      | Some (r, g) \<Rightarrow> contains g k \<and> \<not> overwrite_of opts)"
  by (auto simp: registerFormElement_def Let_def split: option.splits prod.splits)

lemma registerFormElement_group:
  assumes g: "getNestedForm s (PArr (normalizePath pth)) = Some (r, g)"
    and grp: "is_FormGroup g"
    and pass: "\<not> contains g k \<or> overwrite_of opts"
  shows "\<exists>g'. find_path (mainForm (snd (registerFormElement pth k c opts s))) r = Some g'
            \<and> is_FormGroup g'
            \<and> controls_of g' = registered_controls k c opts g"
proof -
  have fp: "find_path (mainForm s) r = Some g" using getNestedForm_Some [OF g] by blast
  define root1 where "root1 = (if contains g k then removeControl r k (mainForm s) else mainForm s)"
  define g1 where "g1 = (if contains g k then updateValueAndValidity (deleteControl k g) else g)"
  have fp1: "find_path root1 r = Some g1"
    using fp by (simp add: root1_def g1_def find_path_removeControl)
  have grp1: "is_FormGroup g1" using grp by (simp add: g1_def)
  have cs1: "controls_of g1 = (if contains g k then obj_delete (controls_of g) k else controls_of g)"
    by (simp add: g1_def controls_of_deleteControl)
  define root2 where "root2 =
     (case insertAtIndex_of opts of
        None \<Rightarrow> addControl r k c root1
      | Some ix \<Rightarrow> if ix \<ge> 0 then insert_ordered r ix k c root1 else addControl r k c root1)"
  have res: "mainForm (snd (registerFormElement pth k c opts s)) = root2"
    using g pass by (auto simp: registerFormElement_def Let_def root2_def root1_def
        split: option.splits)
  have add: "\<exists>g'. find_path (addControl r k c root1) r = Some g' \<and> is_FormGroup g'
            \<and> controls_of g' = obj_add (controls_of g1) k c"
    using find_path_addControl [OF fp1, of k c] grp1
    by (simp add: controls_of_registerControl)
  have ins: "\<And>ix. \<exists>g'. find_path (insert_ordered r ix k c root1) r = Some g' \<and> is_FormGroup g'
            \<and> controls_of g' = spliced (controls_of g1) ix k c"
    using find_path_insert_ordered [OF fp1 grp1] by simp
  show ?thesis
  proof (cases "insertAtIndex_of opts")
    case None
    then show ?thesis using add res cs1
      by (simp add: root2_def registered_controls_def Let_def)
  next
    case (Some ix)
    show ?thesis
    proof (cases "ix \<ge> 0")
      case True
      then show ?thesis using ins [of ix] res cs1 Some
        by (simp add: root2_def registered_controls_def Let_def)
    next
      case False
      then show ?thesis using add res cs1 Some
        by (simp add: root2_def registered_controls_def Let_def)
    qed
  qed
qed

section \<open>The rebuilt \<open>controls\<close>\<close>








subsection \<open>Ordinary keys\<close>

lemma ordinary_keyD: "ordinary_key k \<Longrightarrow> \<not> is_array_index k \<and> \<not> inherited k"
  by (simp add: ordinary_key_def)

lemma obj_add_fresh:
  "map_of cs k = None \<Longrightarrow> ordinary_key k \<Longrightarrow> obj_add cs k v = cs @ [(k, v)]"
  by (simp add: obj_add_def obj_set_fresh ordinary_key_def)

lemma fold_obj_add_fresh:
  "distinct (map fst es) \<Longrightarrow> \<forall>e\<in>set es. ordinary_key (fst e) \<Longrightarrow>
   fst ` set es \<inter> fst ` set acc = {} \<Longrightarrow>
   fold (\<lambda>e acc. obj_add acc (fst e) (snd e)) es acc = acc @ es"
proof (induction es arbitrary: acc)
  case Nil
  then show ?case by simp
next
  case (Cons e es)
  have "map_of acc (fst e) = None" using Cons.prems(3) by (auto simp: map_of_eq_None_iff)
  then have 1: "obj_add acc (fst e) (snd e) = acc @ [e]"
    using Cons.prems(2) by (simp add: obj_add_fresh)
  have "fst ` set es \<inter> fst ` set (acc @ [e]) = {}" using Cons.prems(1,3) by auto
  then have "fold (\<lambda>e acc. obj_add acc (fst e) (snd e)) es (acc @ [e]) = (acc @ [e]) @ es"
    using Cons.prems(1,2) by (intro Cons.IH) auto
  then show ?case using 1 by simp
qed

lemma newControls_loop_splice:
  assumes "distinct (map fst (pre @ rest))" and "k \<notin> fst ` set (pre @ rest)"
    and "ordinary_key k" and "\<forall>e\<in>set (pre @ rest). ordinary_key (fst e)"
    and "acc = (if n < length pre then take n pre @ (k, c) # drop n pre else pre)"
  shows "newControls_loop (map fst rest) (length pre) (pre @ rest) (int n) k c acc
           = (if n < length (pre @ rest)
              then take n (pre @ rest) @ (k, c) # drop n (pre @ rest) else pre @ rest)"
  using assms
proof (induction rest arbitrary: pre acc)
  case Nil
  then show ?case by simp
next
  case (Cons e rest)
  obtain key v where e: "e = (key, v)" by (cases e)
  let ?cs = "pre @ e # rest"
  let ?nc1 = "if int (length pre) = int n then obj_set acc k c else acc"
  have keyk: "key \<noteq> k" using Cons.prems(2) e by auto
  have nidx: "ordinary_key key" using Cons.prems(4) e by auto
  have kpre: "map_of pre k = None" using Cons.prems(2) by (auto simp: map_of_eq_None_iff)
  have keypre: "key \<notin> fst ` set pre" using Cons.prems(1) e by auto
  then have "map_of pre key = None" by (simp add: map_of_eq_None_iff)
  then have look: "map_of ?cs key = Some v" using e by (simp add: map_add_def)
  have nc1: "?nc1 = (if n \<le> length pre then take n pre @ (k, c) # drop n pre else pre)"
    using Cons.prems(5) kpre Cons.prems(3) by (auto simp: obj_set_fresh ordinary_key_def)
  have "map_of ?nc1 key = None"
    using keypre keyk unfolding nc1
    by (auto simp: map_of_eq_None_iff dest!: in_set_takeD in_set_dropD)
  then have nc2: "obj_set ?nc1 key v = ?nc1 @ [(key, v)]"
    using nidx by (simp add: obj_set_fresh ordinary_key_def)
  have acc': "?nc1 @ [(key, v)]
      = (if n < length (pre @ [e]) then take n (pre @ [e]) @ (k, c) # drop n (pre @ [e])
         else pre @ [e])"
    unfolding nc1 using e by auto
  have "newControls_loop (map fst rest) (length (pre @ [e])) ((pre @ [e]) @ rest) (int n) k c
           (?nc1 @ [(key, v)])
         = (if n < length ((pre @ [e]) @ rest)
            then take n ((pre @ [e]) @ rest) @ (k, c) # drop n ((pre @ [e]) @ rest)
            else (pre @ [e]) @ rest)"
    using Cons.prems(1-4) acc' by (intro Cons.IH) auto
  then show ?case using look nc2 e by (simp add: Let_def)
qed

lemma newControls_of_splice:
  assumes "distinct (map fst cs)" and "k \<notin> fst ` set cs"
    and "ordinary_key k" and "\<forall>e\<in>set cs. ordinary_key (fst e)"
  shows "newControls_of cs (int n) k c = take n cs @ (k, c) # drop n cs"
proof -
  have loop: "newControls_loop (map fst cs) 0 cs (int n) k c []
      = (if n < length cs then take n cs @ (k, c) # drop n cs else cs)"
    using newControls_loop_splice [of "[]" cs k "[]" n c] assms by simp
  show ?thesis
  proof (cases "n < length cs")
    case True
    then show ?thesis using loop by (simp add: newControls_of_def Let_def)
  next
    case False
    have "map_of cs k = None" using assms(2) by (simp add: map_of_eq_None_iff)
    then show ?thesis using loop False assms(3)
      by (simp add: newControls_of_def Let_def obj_set_fresh ordinary_key_def)
  qed
qed

lemma spliced_splice:
  assumes "distinct (map fst cs)" and "k \<notin> fst ` set cs"
    and "ordinary_key k" and "\<forall>e\<in>set cs. ordinary_key (fst e)"
  shows "spliced cs (int n) k c = take n cs @ (k, c) # drop n cs"
proof -
  let ?es = "take n cs @ (k, c) # drop n cs"
  have "map fst ?es = take n (map fst cs) @ k # drop n (map fst cs)"
    by (simp add: take_map drop_map)
  moreover have "distinct (take n (map fst cs) @ k # drop n (map fst cs))"
    using assms(1,2) distinct_take [of "map fst cs" n] distinct_drop [of "map fst cs" n]
      set_take_disj_set_drop_if_distinct [of "map fst cs" n n]
    by (auto dest: in_set_takeD in_set_dropD)
  ultimately have d: "distinct (map fst ?es)" by simp
  have i: "\<forall>e\<in>set ?es. ordinary_key (fst e)"
    using assms(3,4) by (auto dest: in_set_takeD in_set_dropD)
  show ?thesis
    using fold_obj_add_fresh [OF d i, of "[]"]
    by (simp add: spliced_def newControls_of_splice [OF assms])
qed

section \<open>Paths that resolve\<close>

lemma getNestedForm_normalize:
  "getNestedForm s (PArr (normalizePath pth)) = getNestedForm s pth"
  by (simp add: getNestedForm_def)


lemma split_dot_segments: "w \<in> set (split_dot str) \<Longrightarrow> CHR ''.'' \<notin> set w"
  by (induction str arbitrary: w) (auto split: if_splits list.splits)

lemma split_dot_idem: "concat (map split_dot (split_dot str)) = split_dot str"
proof -
  have "\<forall>w\<in>set ws. CHR ''.'' \<notin> set w \<Longrightarrow> concat (map split_dot ws) = ws" for ws
    by (induction ws) (simp_all add: split_dot_no_dot)
  then show ?thesis using split_dot_segments by blast
qed

lemma segments_append_key:
  "concat (map split_dot (normalizePath (append_key pth k)))
     = concat (map split_dot (normalizePath pth)) @ split_dot k"
  by (cases pth) (simp_all add: split_dot_append_dot split_dot_idem)

lemma getControl_append_key:
  assumes "CHR ''.'' \<notin> set k"
    and "find_path (mainForm s) (concat (map split_dot (normalizePath pth))) = Some g"
  shows "getControl s (append_key pth k) = find_child g k"
  using assms
  by (simp add: getControl_eq segments_append_key find_path_append split_dot_no_dot
      split: option.splits)

lemma registerFormElement_resolves:
  assumes "fst (registerFormElement pth k c opts s) \<noteq> None" and "is_FormGroup (mainForm s)"
  shows "\<exists>r g. getNestedForm s pth = Some (r, g) \<and> is_FormGroup g
           \<and> r = concat (map split_dot (normalizePath pth))
           \<and> find_path (mainForm s) r = Some g
           \<and> (\<not> contains g k \<or> overwrite_of opts)"
proof -
  from assms(1) obtain r g where g: "getNestedForm s (PArr (normalizePath pth)) = Some (r, g)"
    and pass: "\<not> contains g k \<or> overwrite_of opts"
    by (auto simp: registerFormElement_None_iff split: option.splits)
  from getNestedForm_Some [OF g] have r: "r = concat (map split_dot (normalizePath pth))"
    and fp: "find_path (mainForm s) r = Some g"
    and grp: "normalizePath pth \<noteq> [] \<longrightarrow> is_FormGroup g" by blast+
  have "is_FormGroup g"
  proof (cases "normalizePath pth")
    case Nil
    then show ?thesis using r fp assms(2) by simp
  next
    case (Cons a list)
    then show ?thesis using grp by simp
  qed
  then show ?thesis using g r fp pass by (simp add: getNestedForm_normalize)
qed

section \<open>The group after a registration\<close>

lemma find_path_from_group: "find_path c r = Some g \<Longrightarrow> r \<noteq> [] \<Longrightarrow> is_FormGroup c"
  by (cases r; cases c) (auto split: option.splits)

lemma concat_split_dot_Nil: "concat (map split_dot ks) = [] \<longleftrightarrow> ks = []"
  using split_dot_not_Nil by (cases ks) auto

lemma getNestedForm_loop_complete:
  "find_path c0 (concat (map split_dot ks)) = Some g \<Longrightarrow> is_FormGroup g \<Longrightarrow>
   getNestedForm_loop (r0, c0) ks = Some (r0 @ concat (map split_dot ks), g)"
proof (induction ks arbitrary: r0 c0)
  case Nil
  then show ?case by simp
next
  case (Cons k ks)
  from Cons.prems(1) obtain c1 where c1: "find_path c0 (split_dot k) = Some c1"
    "find_path c1 (concat (map split_dot ks)) = Some g"
    by (auto simp: find_path_append split: option.splits)
  have "is_FormGroup c1"
  proof (cases ks)
    case Nil
    then show ?thesis using c1(2) Cons.prems(2) by simp
  next
    case (Cons a list)
    then have "concat (map split_dot ks) \<noteq> []"
      by (metis concat_split_dot_Nil list.distinct(1))
    then show ?thesis using c1(2) by (rule find_path_from_group [rotated])
  qed
  then obtain d cs where d: "c1 = FormGroup d cs" by (cases c1) simp_all
  have "getNestedForm_loop (r0 @ split_dot k, c1) ks
          = Some ((r0 @ split_dot k) @ concat (map split_dot ks), g)"
    using c1(2) Cons.prems(2) by (rule Cons.IH)
  then show ?case using c1(1) d by (simp add: get_def)
qed

lemma getControl_group:
  "getControl s pth = Some g \<Longrightarrow> is_FormGroup g \<Longrightarrow>
   getNestedForm s pth = Some (concat (map split_dot (normalizePath pth)), g)"
  using getNestedForm_loop_complete [of "mainForm s" "normalizePath pth" g "[]"]
  by (simp add: getControl_eq getNestedForm_def)

lemma registerFormElement_after:
  assumes ok: "registerFormElement pth k n opts s = (Some ev, s')"
    and root: "is_FormGroup (mainForm s)"
  shows "\<exists>g g'. getControl s pth = Some g \<and> is_FormGroup g
           \<and> (\<not> contains g k \<or> overwrite_of opts)
           \<and> getControl s' pth = Some g' \<and> is_FormGroup g'
           \<and> controls_of g' = registered_controls k n opts g"
proof -
  have "fst (registerFormElement pth k n opts s) \<noteq> None" using ok by simp
  from registerFormElement_resolves [OF this root] obtain r g where
    g: "getNestedForm s pth = Some (r, g)" and grp: "is_FormGroup g"
    and r: "r = concat (map split_dot (normalizePath pth))"
    and fp: "find_path (mainForm s) r = Some g"
    and pass: "\<not> contains g k \<or> overwrite_of opts" by blast
  from registerFormElement_group [of s pth r g k opts n] g grp pass obtain g' where
    g': "find_path (mainForm s') r = Some g'" "is_FormGroup g'"
    "controls_of g' = registered_controls k n opts g"
    using ok by (auto simp: getNestedForm_normalize)
  show ?thesis using fp g' grp pass r by (auto simp: getControl_eq)
qed

section \<open>Disabling at an address\<close>

lemma update_at_append:
  "update_at up (r @ r') f root = update_at up r (update_at up r' f) root"
proof (induction r arbitrary: root)
  case Nil
  show ?case by simp
next
  case (Cons name r)
  show ?case
  proof (cases root)
    case (FormControl v d)
    then show ?thesis by simp
  next
    case (FormGroup d cs)
    then show ?thesis using Cons.IH by (simp split: option.splits)
  qed
qed

lemma disabled_disable [simp]: "disabled (disable c)"
  by (cases c) simp_all

lemma find_path_disable_step:
  assumes "find_path root r = Some (FormGroup d cs)" and "CHR ''.'' \<notin> set k"
  shows "find_path (disable_step r exceptions k root) r
           = Some (FormGroup d (disable_key exceptions k cs))"
proof (cases "k \<in> set exceptions")
  case True
  then show ?thesis using assms by (simp add: disable_step_def disable_key_def)
next
  case False
  show ?thesis
  proof (cases "map_of cs k")
    case None
    then have "find_path root (r @ [k]) = None"
      using assms(1) by (simp add: find_path_append)
    then show ?thesis using assms False None
      by (simp add: disable_step_def disable_key_def split_dot_no_dot)
  next
    case (Some c)
    then have fp: "find_path root (r @ [k]) = Some c"
      using assms(1) by (simp add: find_path_append)
    have "find_path (update_at id r (update_at id [k] disable) root) r
            = Some (update_at id [k] disable (FormGroup d cs))"
      using assms(1) by (intro find_path_update_at) simp_all
    then have "find_path (disable_onlySelf (r @ [k]) root) r
            = Some (FormGroup d (obj_replace cs k (disable c)))"
      using Some by (simp add: disable_onlySelf_def update_at_append)
    then show ?thesis using assms(2) False Some fp
      by (simp add: disable_step_def disable_key_def split_dot_no_dot)
  qed
qed

lemma keys_disable_key [simp]: "map fst (disable_key exceptions k cs) = map fst cs"
  by (simp add: disable_key_def keys_obj_replace split: option.splits)

lemma find_path_fold_disable_step:
  "find_path root r = Some (FormGroup d cs) \<Longrightarrow> \<forall>k\<in>set ks. CHR ''.'' \<notin> set k \<Longrightarrow>
   find_path (fold (disable_step r exceptions) ks root) r
     = Some (FormGroup d (fold (disable_key exceptions) ks cs))"
proof (induction ks arbitrary: root cs)
  case Nil
  then show ?case by simp
next
  case (Cons k ks)
  have "find_path (disable_step r exceptions k root) r
           = Some (FormGroup d (disable_key exceptions k cs))"
    using Cons.prems by (intro find_path_disable_step) auto
  from Cons.IH [OF this] show ?case using Cons.prems(2) by simp
qed

lemma obj_replace_distinct:
  "distinct (map fst cs) \<Longrightarrow>
   obj_replace cs k v = map (\<lambda>e. if fst e = k then (k, v) else e) cs"
proof (induction cs)
  case Nil
  show ?case by simp
next
  case (Cons e cs)
  obtain k' v' where e: "e = (k', v')" by (cases e)
  show ?case
  proof (cases "k' = k")
    case True
    then have "k \<notin> fst ` set cs" using Cons.prems e by auto
    then have "map (\<lambda>e. if fst e = k then (k, v) else e) cs = cs"
      by (intro map_idI) auto
    then show ?thesis using True e by simp
  next
    case False
    then show ?thesis using Cons e by simp
  qed
qed

lemma disable_key_distinct:
  "distinct (map fst cs) \<Longrightarrow>
   disable_key exceptions k cs
     = map (\<lambda>e. if fst e = k \<and> k \<notin> set exceptions then (fst e, disable (snd e)) else e) cs"
proof (cases "k \<in> set exceptions")
  case True
  then show ?thesis by (simp add: disable_key_def)
next
  case False
  assume d: "distinct (map fst cs)"
  show ?thesis
  proof (cases "map_of cs k")
    case None
    then have "k \<notin> fst ` set cs" by (simp add: map_of_eq_None_iff)
    then have "map (\<lambda>e. if fst e = k \<and> k \<notin> set exceptions then (fst e, disable (snd e)) else e) cs = cs"
      by (intro map_idI) auto
    then show ?thesis using None False by (simp add: disable_key_def)
  next
    case (Some c)
    have "map (\<lambda>e. if fst e = k then (k, disable c) else e) cs
        = map (\<lambda>e. if fst e = k \<and> k \<notin> set exceptions then (fst e, disable (snd e)) else e) cs"
    proof (rule map_cong [OF refl])
      fix e assume e: "e \<in> set cs"
      have "snd e = c" if "fst e = k"
      proof -
        have "(k, snd e) \<in> set cs" using e that by (cases e) auto
        then have "map_of cs k = Some (snd e)" using d by (rule map_of_is_SomeI [rotated])
        then show ?thesis using Some by simp
      qed
      then show "(if fst e = k then (k, disable c) else e)
          = (if fst e = k \<and> k \<notin> set exceptions then (fst e, disable (snd e)) else e)"
        using False by auto
    qed
    then show ?thesis using Some False d by (simp add: disable_key_def obj_replace_distinct)
  qed
qed

lemma fold_disable_key:
  "distinct (map fst cs) \<Longrightarrow> distinct ks \<Longrightarrow>
   fold (disable_key exceptions) ks cs
     = map (\<lambda>e. if fst e \<in> set ks \<and> fst e \<notin> set exceptions
                 then (fst e, disable (snd e)) else e) cs"
proof (induction ks arbitrary: cs)
  case Nil
  then show ?case by simp
next
  case (Cons k ks)
  let ?cs1 = "disable_key exceptions k cs"
  have 1: "?cs1 = map (\<lambda>e. if fst e = k \<and> k \<notin> set exceptions
                             then (fst e, disable (snd e)) else e) cs"
    using Cons.prems(1) by (rule disable_key_distinct)
  have "distinct (map fst ?cs1)" using Cons.prems(1) by simp
  then have "fold (disable_key exceptions) ks ?cs1
     = map (\<lambda>e. if fst e \<in> set ks \<and> fst e \<notin> set exceptions
                 then (fst e, disable (snd e)) else e) ?cs1"
    using Cons.prems(2) by (intro Cons.IH) auto
  also have "\<dots> = map (\<lambda>e. if fst e \<in> set (k # ks) \<and> fst e \<notin> set exceptions
                 then (fst e, disable (snd e)) else e) cs"
    unfolding 1 using Cons.prems(2) by auto
  finally show ?case by simp
qed

lemma getControl_ref_eq:
  "getControl_ref s pth =
     (case getControl s pth of
        None \<Rightarrow> None
      | Some c \<Rightarrow> Some (concat (map split_dot (normalizePath pth)), c))"
  by (simp add: getControl_eq getControl_ref_def getControl_loop_eq split: option.splits)

section \<open>The main form stays a group\<close>

lemma is_FormGroup_disable [simp]: "is_FormGroup (disable c) = is_FormGroup c"
  by (cases c) simp_all

lemma is_FormGroup_update_at:
  assumes "\<And>c. is_FormGroup (up c) = is_FormGroup c" and "\<And>c. is_FormGroup (f c) = is_FormGroup c"
  shows "is_FormGroup (update_at up r f root) = is_FormGroup root"
  by (cases r; cases root) (simp_all add: assms split: option.splits)

lemma is_FormGroup_mutations [simp]:
  "is_FormGroup (addControl r k c root) = is_FormGroup root"
  "is_FormGroup (removeControl r k root) = is_FormGroup root"
  "is_FormGroup (disable_onlySelf r root) = is_FormGroup root"
  by (simp_all add: addControl_def removeControl_def disable_onlySelf_def
      is_FormGroup_update_at)

lemma is_FormGroup_setControl:
  "setControl r k c root = Inr root' \<Longrightarrow> is_FormGroup root' = is_FormGroup root"
  by (auto simp: setControl_def is_FormGroup_update_at split: option.splits if_splits)

lemma is_FormGroup_fold:
  "(\<And>x t. is_FormGroup (f x t) = is_FormGroup t) \<Longrightarrow>
   is_FormGroup (fold f xs root) = is_FormGroup root"
  by (induction xs arbitrary: root) simp_all

lemma is_FormGroup_insert_ordered [simp]:
  "is_FormGroup (insert_ordered r ix k c root) = is_FormGroup root"
  by (simp add: insert_ordered_def Let_def is_FormGroup_fold split: option.splits)

lemma is_FormGroup_disable_step [simp]:
  "is_FormGroup (disable_step r exceptions k root) = is_FormGroup root"
  by (simp add: disable_step_def split: option.splits)

lemma mainForm_call_result:
  "is_FormGroup (mainForm (snd (call_result c s))) = is_FormGroup (mainForm s)"
proof (cases c)
  case (RegisterFormElement pth k ctl opts)
  then show ?thesis
    by (auto simp: registerFormElement_def Let_def split: option.splits prod.splits)
next
  case (RemoveFormElement pth)
  then show ?thesis
    by (auto simp: removeFormElement_def split: option.splits prod.splits)
next
  case (DisableAllExcept formPath exceptions)
  then show ?thesis
    by (auto simp: disableAllExcept_def is_FormGroup_fold split: option.splits prod.splits
        control.splits)
next
  case (RegisterRootForms name formGroup)
  then show ?thesis
    by (auto simp: registerRootForms_def is_FormGroup_setControl split: sum.splits)
qed simp_all

lemma mainForm_run: "is_FormGroup (mainForm (run cs s)) = is_FormGroup (mainForm s)"
  by (induction cs arbitrary: s) (simp_all add: mainForm_call_result)

lemma mainForm_reachable: "is_FormGroup (mainForm (run cs new_FormService))"
  by (simp add: mainForm_run new_FormService_def)

section \<open>The options of \<open>registerFormElement\<close>\<close>

text \<open>
  C10. \<open>registerFormElement\<close> called with the bare boolean \<open>b\<close> as its fourth argument
  returns the same result and the same state (tree, event history, observers) as the call
  with the options object \<open>{overwrite: b}\<close>: neither carries an \<open>insertAtIndex\<close>.
\<close>

theorem legacy_boolean_options:
  "registerFormElement pth controlName ctl (Overwrite b) s
     = registerFormElement pth controlName ctl (Options (Some b) None) s"
  by (simp add: registerFormElement_def Let_def split: option.splits prod.splits)

theorem legacy_boolean_options_witness:
  "registerFormElement (PStr ''main'') ''a'' (FormControl 2 False) (Overwrite True) demo
     = registerFormElement (PStr ''main'') ''a'' (FormControl 2 False) (Options (Some True) None) demo
   \<and> registerFormElement (PStr ''main'') ''a'' (FormControl 2 False) (Overwrite True) demo
     = (Some \<lparr>type = formElement, path = ''main.a'', control = Some (FormControl 2 False)\<rparr>,
        \<lparr>mainForm = FormGroup False [(''main'', FormGroup False [(''a'', FormControl 2 False)])],
         formEventSubject =
           [(0, [\<lparr>type = formElement, path = ''main.a'', control = Some (FormControl 2 False)\<rparr>])],
         eventHistory =
           [\<lparr>type = form, path = ''main'', control = None\<rparr>,
            \<lparr>type = formElement, path = ''main.a'', control = Some (FormControl 2 False)\<rparr>]\<rparr>)"
proof -
  have "registerFormElement (PStr ''main'') ''a'' (FormControl 2 False) (Options (Some True) None) demo
     = (Some \<lparr>type = formElement, path = ''main.a'', control = Some (FormControl 2 False)\<rparr>,
        \<lparr>mainForm = FormGroup False [(''main'', FormGroup False [(''a'', FormControl 2 False)])],
         formEventSubject =
           [(0, [\<lparr>type = formElement, path = ''main.a'', control = Some (FormControl 2 False)\<rparr>])],
         eventHistory =
           [\<lparr>type = form, path = ''main'', control = None\<rparr>,
            \<lparr>type = formElement, path = ''main.a'', control = Some (FormControl 2 False)\<rparr>]\<rparr>)"
    by (simp add: demo_def eval_defs)
  then show ?thesis
    using legacy_boolean_options [of "PStr ''main''" "''a''" "FormControl 2 False" True demo]
    by simp
qed

section \<open>The event history and the observers\<close>

lemma removeFormElement_events [simp]:
  "eventHistory (snd (removeFormElement pth s)) = eventHistory s"
  "formEventSubject (snd (removeFormElement pth s)) = formEventSubject s"
  by (auto simp: removeFormElement_def split: prod.splits option.splits)

lemma disableAllExcept_events [simp]:
  "eventHistory (disableAllExcept formPath exceptions s) = eventHistory s"
  "formEventSubject (disableAllExcept formPath exceptions s) = formEventSubject s"
  by (auto simp: disableAllExcept_def split: prod.splits option.splits control.splits)


lemma registerFormElement_events:
  "eventHistory (snd (registerFormElement pth k c opts s))
     = eventHistory s @ (case fst (registerFormElement pth k c opts s) of None \<Rightarrow> [] | Some e \<Rightarrow> [e])"
  "formEventSubject (snd (registerFormElement pth k c opts s))
     = (case fst (registerFormElement pth k c opts s) of
          None \<Rightarrow> formEventSubject s
        | Some e \<Rightarrow> subject_next e (formEventSubject s))"
  using registerFormElement_cases [of pth k c opts s] by auto









section \<open>Disabling all but the exceptions\<close>

text \<open>
  C7, as amended. If \<open>formPath\<close> resolves to a group whose keys (each occurring once, as
  in any object) contain no dot, then after
  \<open>disableAllExcept(formPath, exceptions)\<close> the group at \<open>formPath\<close> holds the same keys
  in the same order, every child whose key is not in \<open>exceptions\<close> is disabled (with all
  its descendants), and every child whose key is in \<open>exceptions\<close> is exactly as before;
  the group's own status, the event history and the observers are untouched. If
  \<open>formPath\<close> does not resolve, or resolves to a control that is no group, the call
  changes nothing at all.
\<close>

theorem disableAllExcept_children:
  "(getControl s (PStr formPath) = Some (FormGroup d cs) \<and> distinct (map fst cs)
      \<and> (\<forall>e\<in>set cs. CHR ''.'' \<notin> set (fst e)) \<longrightarrow>
    getControl (disableAllExcept formPath exceptions s) (PStr formPath)
      = Some (FormGroup d
          (map (\<lambda>e. if fst e \<in> set exceptions then e else (fst e, disable (snd e))) cs))
    \<and> (\<forall>k c. (k, c) \<in> set cs \<and> k \<notin> set exceptions \<longrightarrow>
          (\<exists>c'. getControl (disableAllExcept formPath exceptions s)
                  (append_key (PStr formPath) k) = Some c' \<and> disabled c'))
    \<and> (\<forall>k c. (k, c) \<in> set cs \<and> k \<in> set exceptions \<longrightarrow>
          getControl (disableAllExcept formPath exceptions s)
            (append_key (PStr formPath) k) = Some c)
    \<and> eventHistory (disableAllExcept formPath exceptions s) = eventHistory s
    \<and> formEventSubject (disableAllExcept formPath exceptions s) = formEventSubject s)
   \<and> ((\<forall>d cs. getControl s (PStr formPath) \<noteq> Some (FormGroup d cs)) \<longrightarrow>
        disableAllExcept formPath exceptions s = s)"
proof (intro conjI impI)
  assume "\<forall>d cs. getControl s (PStr formPath) \<noteq> Some (FormGroup d cs)"
  then show "disableAllExcept formPath exceptions s = s"
    by (auto simp: disableAllExcept_def getControl_ref_eq split: option.splits control.splits)
next
  let ?s' = "disableAllExcept formPath exceptions s"
  let ?r = "concat (map split_dot (normalizePath (PStr formPath)))"
  let ?cs' = "map (\<lambda>e. if fst e \<in> set exceptions then e else (fst e, disable (snd e))) cs"
  assume h: "getControl s (PStr formPath) = Some (FormGroup d cs) \<and> distinct (map fst cs)
      \<and> (\<forall>e\<in>set cs. CHR ''.'' \<notin> set (fst e))"
  then have fp: "find_path (mainForm s) ?r = Some (FormGroup d cs)"
    by (simp add: getControl_eq)
  have s': "mainForm ?s' = fold (disable_step ?r exceptions) (map fst cs) (mainForm s)"
    using h by (simp add: disableAllExcept_def getControl_ref_eq)
  have "find_path (mainForm ?s') ?r
          = Some (FormGroup d (fold (disable_key exceptions) (map fst cs) cs))"
    unfolding s' using fp h by (intro find_path_fold_disable_step) auto
  moreover have "fold (disable_key exceptions) (map fst cs) cs = ?cs'"
    using h by (simp add: fold_disable_key)
  ultimately have fp': "find_path (mainForm ?s') ?r = Some (FormGroup d ?cs')" by simp
  then show g': "getControl ?s' (PStr formPath) = Some (FormGroup d ?cs')"
    by (simp add: getControl_eq)
  have dist': "distinct (map fst ?cs')"
    using h by (simp add: comp_def if_distrib [of fst] cong: if_cong)
  have child: "getControl ?s' (append_key (PStr formPath) k) = map_of ?cs' k"
    if "(k, c) \<in> set cs" for k c
  proof -
    have "CHR ''.'' \<notin> set k" using h that by auto
    from getControl_append_key [OF this, of ?s' "PStr formPath" "FormGroup d ?cs'"] fp'
    show ?thesis by simp
  qed
  show "\<forall>k c. (k, c) \<in> set cs \<and> k \<notin> set exceptions \<longrightarrow>
          (\<exists>c'. getControl ?s' (append_key (PStr formPath) k) = Some c' \<and> disabled c')"
  proof (intro allI impI)
    fix k c assume kc: "(k, c) \<in> set cs \<and> k \<notin> set exceptions"
    then have "(k, disable c) \<in> set ?cs'" by force
    then have "map_of ?cs' k = Some (disable c)" using dist' by (rule map_of_is_SomeI [rotated])
    moreover have "getControl ?s' (append_key (PStr formPath) k) = map_of ?cs' k"
      using kc by (intro child [of k c]) simp
    ultimately show "\<exists>c'. getControl ?s' (append_key (PStr formPath) k) = Some c' \<and> disabled c'"
      by simp
  qed
  show "\<forall>k c. (k, c) \<in> set cs \<and> k \<in> set exceptions \<longrightarrow>
          getControl ?s' (append_key (PStr formPath) k) = Some c"
  proof (intro allI impI)
    fix k c assume kc: "(k, c) \<in> set cs \<and> k \<in> set exceptions"
    then have "(k, c) \<in> set ?cs'" by force
    then have "map_of ?cs' k = Some c" using dist' by (rule map_of_is_SomeI [rotated])
    moreover have "getControl ?s' (append_key (PStr formPath) k) = map_of ?cs' k"
      using kc by (intro child [of k c]) simp
    ultimately show "getControl ?s' (append_key (PStr formPath) k) = Some c"
      by simp
  qed
  show "eventHistory ?s' = eventHistory s" by simp
  show "formEventSubject ?s' = formEventSubject s" by simp
qed

theorem disableAllExcept_children_witness:
  "getControl demo_two (PStr ''main'')
     = Some (FormGroup False [(''a'', FormControl 1 False), (''b'', FormControl 2 False)])
   \<and> getControl (disableAllExcept ''main'' [''b''] demo_two) (PStr ''main'')
     = Some (FormGroup False [(''a'', FormControl 1 True), (''b'', FormControl 2 False)])"
proof -
  let ?cs = "[(''a'', FormControl 1 False), (''b'', FormControl 2 False)]"
  have h: "getControl demo_two (PStr ''main'') = Some (FormGroup False ?cs)
      \<and> distinct (map fst ?cs) \<and> (\<forall>e\<in>set ?cs. CHR ''.'' \<notin> set (fst e))"
    by (simp add: demo_two_eq eval_defs)
  note t = disableAllExcept_children [of demo_two "''main''" False ?cs "[''b'']",
      THEN conjunct1, THEN mp, OF h, THEN conjunct1]
  show ?thesis using t h by simp
qed

theorem disableAllExcept_dotted_key_counterexample:
  "getControl demo_dotted_key (PStr ''main'')
     = Some (FormGroup False [(''a.b'', FormControl 1 False)])
   \<and> getControl (disableAllExcept ''main'' [] demo_dotted_key) (PStr ''main'')
     = Some (FormGroup False [(''a.b'', FormControl 1 False)])
   \<and> \<not> disabled (FormControl 1 False)"
  by (simp add: demo_dotted_key_eq eval_defs)

section \<open>Removal\<close>

lemma pop_snoc [simp]: "pop (ks @ [k]) = (Some k, ks)"
  by (simp add: pop_def)

text \<open>
  C6, as amended. If the last segment \<open>k\<close> of the path is not empty and the segments
  before it resolve to a group that holds an enabled control under \<open>k\<close>, then
  \<open>removeFormElement\<close> returns true, the group afterwards holds its other children in
  the order they had and nothing under \<open>k\<close>, and the event history is as before. If the
  path has no segment, or \<open>k\<close> is empty, or the segments before \<open>k\<close> do not resolve to a
  group, or the group holds nothing under \<open>k\<close>, then \<open>removeFormElement\<close> returns false
  and changes nothing.
\<close>

theorem removeFormElement_detaches:
  "(normalizePath pth = ks @ [k] \<and> k \<noteq> [] \<and> getControl s (PArr ks) = Some g
      \<and> is_FormGroup g \<and> find_child g k = Some c \<and> enabled c \<longrightarrow>
    fst (removeFormElement pth s)
    \<and> (\<exists>g'. getControl (snd (removeFormElement pth s)) (PArr ks) = Some g' \<and> is_FormGroup g'
          \<and> controls_of g' = filter (\<lambda>e. fst e \<noteq> k) (controls_of g)
          \<and> find_child g' k = None)
    \<and> getFormEventHistory (snd (removeFormElement pth s)) = getFormEventHistory s)
   \<and> (normalizePath pth = []
        \<or> (normalizePath pth = ks @ [k]
            \<and> (k = [] \<or> (\<forall>g. getControl s (PArr ks) = Some g \<longrightarrow>
                             \<not> is_FormGroup g \<or> find_child g k = None))) \<longrightarrow>
       removeFormElement pth s = (False, s))"
proof (intro conjI impI)
  assume h: "normalizePath pth = ks @ [k] \<and> k \<noteq> [] \<and> getControl s (PArr ks) = Some g
      \<and> is_FormGroup g \<and> find_child g k = Some c \<and> enabled c"
  let ?r = "concat (map split_dot ks)"
  let ?s' = "s\<lparr>mainForm := removeControl ?r k (mainForm s)\<rparr>"
  have g: "getNestedForm s (PArr ks) = Some (?r, g)"
    using h getControl_group [of s "PArr ks" g] by simp
  have c: "contains g k" using h by (cases g) auto
  have res: "removeFormElement pth s = (True, ?s')"
    using h g c by (simp add: removeFormElement_def)
  then show "fst (removeFormElement pth s)" by simp
  show "getFormEventHistory (snd (removeFormElement pth s)) = getFormEventHistory s"
    by (simp add: getFormEventHistory_def)
  have fp: "find_path (mainForm s) ?r = Some g" using h by (simp add: getControl_eq)
  let ?g' = "updateValueAndValidity (deleteControl k g)"
  have "find_path (mainForm ?s') ?r = Some ?g'"
    using find_path_removeControl [OF fp] by simp
  then have 1: "getControl (snd (removeFormElement pth s)) (PArr ks) = Some ?g'"
    using res by (simp add: getControl_eq)
  have 2: "is_FormGroup ?g'" using h by simp
  have 3: "controls_of ?g' = filter (\<lambda>e. fst e \<noteq> k) (controls_of g)"
    by (simp add: controls_of_deleteControl obj_delete_def)
  have "map_of (controls_of ?g') k = None"
    by (simp add: controls_of_deleteControl map_of_obj_delete)
  then have 4: "find_child ?g' k = None" by (cases ?g') simp_all
  show "\<exists>g'. getControl (snd (removeFormElement pth s)) (PArr ks) = Some g' \<and> is_FormGroup g'
          \<and> controls_of g' = filter (\<lambda>e. fst e \<noteq> k) (controls_of g)
          \<and> find_child g' k = None"
    using 1 2 3 4 by blast
next
  assume h: "normalizePath pth = []
        \<or> (normalizePath pth = ks @ [k]
            \<and> (k = [] \<or> (\<forall>g. getControl s (PArr ks) = Some g \<longrightarrow>
                             \<not> is_FormGroup g \<or> find_child g k = None)))"
  show "removeFormElement pth s = (False, s)"
  proof (cases "normalizePath pth = []")
    case True
    then show ?thesis
      by (simp add: removeFormElement_def pop_def split: option.splits prod.splits)
  next
    case False
    then have p: "normalizePath pth = ks @ [k]"
      and k: "k = [] \<or> (\<forall>g. getControl s (PArr ks) = Some g \<longrightarrow>
                             \<not> is_FormGroup g \<or> find_child g k = None)"
      using h by auto
    show ?thesis
    proof (cases "getNestedForm s (PArr ks)")
      case None
      then show ?thesis using p by (simp add: removeFormElement_def)
    next
      case (Some rg)
      obtain r g where rg: "rg = (r, g)" by (cases rg)
      have "getControl s (PArr ks) = Some g"
        using getNestedForm_Some [of s ks r g] Some rg by (auto simp: getControl_eq)
      then have "k = [] \<or> \<not> is_FormGroup g \<or> find_child g k = None" using k by auto
      then have "k = [] \<or> \<not> contains g k" by (cases g) auto
      then show ?thesis using p Some rg by (auto simp: removeFormElement_def)
    qed
  qed
qed

theorem removeFormElement_detaches_witness:
  "removeFormElement (PStr ''main.a'') demo_two
     = (True, demo_two\<lparr>mainForm :=
          FormGroup False [(''main'', FormGroup False [(''b'', FormControl 2 False)])]\<rparr>)
   \<and> removeFormElement (PStr ''main.c'') demo_two = (False, demo_two)
   \<and> removeFormElement (PStr ''other.a'') demo_two = (False, demo_two)"
proof -
  let ?g = "FormGroup False [(''a'', FormControl 1 False), (''b'', FormControl 2 False)]"
  have h1: "normalizePath (PStr ''main.a'') = [''main''] @ [''a''] \<and> ''a'' \<noteq> []
      \<and> getControl demo_two (PArr [''main'']) = Some ?g
      \<and> is_FormGroup ?g \<and> find_child ?g ''a'' = Some (FormControl 1 False)
      \<and> enabled (FormControl 1 False)"
    by (simp add: demo_two_eq eval_defs)
  have ok: "fst (removeFormElement (PStr ''main.a'') demo_two)"
    using removeFormElement_detaches [of "PStr ''main.a''" "[''main'']" "''a''" demo_two ?g
        "FormControl 1 False", THEN conjunct1, THEN mp, OF h1]
    by (rule conjunct1)
  have st: "snd (removeFormElement (PStr ''main.a'') demo_two)
     = demo_two\<lparr>mainForm :=
          FormGroup False [(''main'', FormGroup False [(''b'', FormControl 2 False)])]\<rparr>"
    by (simp add: demo_two_eq eval_defs)
  have h2: "normalizePath (PStr ''main.c'') = []
        \<or> (normalizePath (PStr ''main.c'') = [''main''] @ [''c'']
            \<and> (''c'' = [] \<or> (\<forall>g. getControl demo_two (PArr [''main'']) = Some g \<longrightarrow>
                             \<not> is_FormGroup g \<or> find_child g ''c'' = None)))"
    by (simp add: demo_two_eq eval_defs)
  have no1: "removeFormElement (PStr ''main.c'') demo_two = (False, demo_two)"
    using removeFormElement_detaches [of "PStr ''main.c''" "[''main'']" "''c''" demo_two,
        THEN conjunct2, THEN mp, OF h2] .
  have h3: "normalizePath (PStr ''other.a'') = []
        \<or> (normalizePath (PStr ''other.a'') = [''other''] @ [''a'']
            \<and> (''a'' = [] \<or> (\<forall>g. getControl demo_two (PArr [''other'']) = Some g \<longrightarrow>
                             \<not> is_FormGroup g \<or> find_child g ''a'' = None)))"
    by (simp add: demo_two_eq eval_defs)
  have no2: "removeFormElement (PStr ''other.a'') demo_two = (False, demo_two)"
    using removeFormElement_detaches [of "PStr ''other.a''" "[''other'']" "''a''" demo_two,
        THEN conjunct2, THEN mp, OF h3] .
  show ?thesis using ok st no1 no2 by (simp add: prod_eq_iff)
qed

theorem removeFormElement_empty_key_counterexample:
  "normalizePath (PStr ''main.'') = [''main'', []]
   \<and> getControl demo_empty_key (PArr [''main''])
       = Some (FormGroup False [([], FormControl 1 False)])
   \<and> removeFormElement (PStr ''main.'') demo_empty_key = (False, demo_empty_key)"
  by (simp add: demo_empty_key_eq eval_defs)

section \<open>A disabled control under the key\<close>

text \<open>
  C2 fails on the code. Where the group at the path already holds a disabled control
  under the key, \<open>contains\<close> answers false, so \<open>registerFormElement\<close> without \<open>overwrite\<close>
  does not return null: it returns an event and appends it to the event history.
  Without an \<open>insertAtIndex\<close> the group keeps the children it had, the old control
  included, although the event carries the new one.
\<close>

theorem register_over_disabled_child:
  assumes "getControl s pth = Some g" and "is_FormGroup g"
    and "find_child g k = Some old" and "disabled old"
  shows "fst (registerFormElement pth k n (Overwrite False) s)
           = Some \<lparr>type = formElement, path = join_dot (normalizePath pth @ [k]),
                   control = Some n\<rparr>
       \<and> getFormEventHistory (snd (registerFormElement pth k n (Overwrite False) s))
           = getFormEventHistory s
               @ [\<lparr>type = formElement, path = join_dot (normalizePath pth @ [k]),
                    control = Some n\<rparr>]
       \<and> (\<exists>g'. getControl (snd (registerFormElement pth k n (Overwrite False) s)) pth = Some g'
             \<and> controls_of g' = controls_of g)"
proof -
  let ?res = "registerFormElement pth k n (Overwrite False) s"
  let ?ev = "\<lparr>type = formElement, path = join_dot (normalizePath pth @ [k]), control = Some n\<rparr>"
  let ?r = "concat (map split_dot (normalizePath pth))"
  have g: "getNestedForm s pth = Some (?r, g)" using assms(1,2) by (rule getControl_group)
  have nc: "\<not> contains g k" using assms(3,4) by (cases g) (auto simp: enabled_def)
  have "fst ?res \<noteq> None"
    using g nc by (simp add: registerFormElement_None_iff getNestedForm_normalize)
  then have ev: "fst ?res = Some ?ev"
    using registerFormElement_cases [of pth k n "Overwrite False" s] by auto
  have hist: "getFormEventHistory (snd ?res) = getFormEventHistory s @ [?ev]"
    using ev by (simp add: getFormEventHistory_def registerFormElement_events)
  from registerFormElement_group [of s pth ?r g k "Overwrite False" n] g assms(2) nc
  obtain g' where g': "find_path (mainForm (snd ?res)) ?r = Some g'"
    "controls_of g' = registered_controls k n (Overwrite False) g"
    by (auto simp: getNestedForm_normalize)
  have "map_of (controls_of g) k \<noteq> None" using assms(2,3) by (cases g) auto
  then have "registered_controls k n (Overwrite False) g = controls_of g"
    using nc by (simp add: registered_controls_def obj_add_def)
  then have "getControl (snd ?res) pth = Some g' \<and> controls_of g' = controls_of g"
    using g' by (simp add: getControl_eq)
  then show ?thesis using ev hist by blast
qed

theorem register_over_disabled_child_witness:
  "getControl demo_disabled (PStr ''main'')
     = Some (FormGroup False [(''a'', FormControl 1 True), (''b'', FormControl 2 False)])
   \<and> registerFormElement (PStr ''main'') ''a'' (FormControl 3 False) (Overwrite False) demo_disabled
     = (Some \<lparr>type = formElement, path = ''main.a'', control = Some (FormControl 3 False)\<rparr>,
        demo_disabled\<lparr>eventHistory := eventHistory demo_disabled
          @ [\<lparr>type = formElement, path = ''main.a'', control = Some (FormControl 3 False)\<rparr>]\<rparr>)
   \<and> getControl (snd (registerFormElement (PStr ''main'') ''a'' (FormControl 3 False)
                        (Options None (Some 1)) demo_disabled)) (PStr ''main'')
     = Some (FormGroup False [(''a'', FormControl 3 False), (''b'', FormControl 2 False)])"
proof -
  let ?g = "FormGroup False [(''a'', FormControl 1 True), (''b'', FormControl 2 False)]"
  let ?ev = "\<lparr>type = formElement, path = ''main.a'', control = Some (FormControl 3 False)\<rparr>"
  have 1: "getControl demo_disabled (PStr ''main'') = Some ?g"
    by (simp add: demo_disabled_eq demo_two_eq eval_defs)
  have 2: "is_FormGroup ?g" by simp
  have 3: "find_child ?g ''a'' = Some (FormControl 1 True)" by simp
  have 4: "disabled (FormControl 1 True)" by simp
  have ev: "fst (registerFormElement (PStr ''main'') ''a'' (FormControl 3 False) (Overwrite False)
              demo_disabled) = Some ?ev"
    using register_over_disabled_child [OF 1 2 3 4, of "FormControl 3 False"] by simp
  have st: "snd (registerFormElement (PStr ''main'') ''a'' (FormControl 3 False) (Overwrite False)
              demo_disabled)
      = demo_disabled\<lparr>eventHistory := eventHistory demo_disabled @ [?ev]\<rparr>"
    by (simp add: demo_disabled_eq demo_two_eq eval_defs)
  have ix: "getControl (snd (registerFormElement (PStr ''main'') ''a'' (FormControl 3 False)
                        (Options None (Some 1)) demo_disabled)) (PStr ''main'')
     = Some (FormGroup False [(''a'', FormControl 3 False), (''b'', FormControl 2 False)])"
    by (simp add: demo_disabled_eq demo_two_eq eval_defs)
  show ?thesis using 1 ev st ix by (simp add: prod_eq_iff)
qed

section \<open>Both forms of a path\<close>

text \<open>
  What the array form of \<open>removeFormElement\<close> does besides: the caller's array loses its
  last segment, a string is left as it is.
\<close>

lemma removeFormElement_call_argument:
  "snd (removeFormElement_call (PStr str) s) = PStr str"
  "snd (removeFormElement_call (PArr (ks @ [k])) s) = PArr ks"
  "snd (removeFormElement_call (PArr []) s) = PArr []"
  by (simp_all add: removeFormElement_call_def pop_def)

text \<open>
  C5, as amended. For every string, the string and the sequence of segments that
  \<open>split('.')\<close> gives of it, and for every non-empty sequence of segments without dots,
  the sequence and the string that \<open>join('.')\<close> gives of it, normalize to the same
  sequence, and \<open>registerFormElement\<close>, \<open>removeFormElement\<close> and \<open>getControl\<close> return the
  same result and leave the service in the same state for both.
\<close>

theorem path_forms_agree:
  "normalizePath (PStr str) = normalizePath (PArr (split_dot str))
   \<and> registerFormElement (PStr str) controlName ctl opts s
       = registerFormElement (PArr (split_dot str)) controlName ctl opts s
   \<and> removeFormElement (PStr str) s = removeFormElement (PArr (split_dot str)) s
   \<and> getControl s (PStr str) = getControl s (PArr (split_dot str))
   \<and> (segs \<noteq> [] \<and> (\<forall>seg\<in>set segs. CHR ''.'' \<notin> set seg) \<longrightarrow>
        normalizePath (PStr (join_dot segs)) = normalizePath (PArr segs)
        \<and> registerFormElement (PStr (join_dot segs)) controlName ctl opts s
            = registerFormElement (PArr segs) controlName ctl opts s
        \<and> removeFormElement (PStr (join_dot segs)) s = removeFormElement (PArr segs) s
        \<and> getControl s (PStr (join_dot segs)) = getControl s (PArr segs))"
  by (simp add: registerFormElement_def removeFormElement_def getControl_def
      getControl_ref_def split_dot_join_dot)

theorem path_forms_agree_witness:
  "normalizePath (PStr ''main.a'') = [''main'', ''a'']
   \<and> getControl demo (PStr ''main.a'') = Some (FormControl 1 False)
   \<and> getControl demo (PArr [''main'', ''a'']) = Some (FormControl 1 False)
   \<and> removeFormElement (PStr ''main.a'') demo = removeFormElement (PArr [''main'', ''a'']) demo
   \<and> fst (removeFormElement (PArr [''main'', ''a'']) demo)
   \<and> registerFormElement (PStr ''main'') ''b'' (FormControl 2 False) (Overwrite False) demo
       = registerFormElement (PArr [''main'']) ''b'' (FormControl 2 False) (Overwrite False) demo
   \<and> fst (registerFormElement (PArr [''main'']) ''b'' (FormControl 2 False) (Overwrite False) demo)
       \<noteq> None"
proof -
  have a: "[''main'', ''a''] \<noteq> [] \<and> (\<forall>seg\<in>set [''main'', ''a'']. CHR ''.'' \<notin> set seg)"
    by simp
  have b: "[''main''] \<noteq> [] \<and> (\<forall>seg\<in>set [''main'']. CHR ''.'' \<notin> set seg)"
    by simp
  have j: "join_dot [''main'', ''a''] = ''main.a''" "join_dot [''main''] = ''main''"
    by simp_all
  note t1 = path_forms_agree [of "''main.a''" "''b''" "FormControl 2 False" "Overwrite False" demo
      "[''main'', ''a'']"]
  note t2 = path_forms_agree [of "''main''" "''b''" "FormControl 2 False" "Overwrite False" demo
      "[''main'']"]
  have r: "removeFormElement (PStr ''main.a'') demo = removeFormElement (PArr [''main'', ''a'']) demo"
    using t1 a j by simp
  have g: "registerFormElement (PStr ''main'') ''b'' (FormControl 2 False) (Overwrite False) demo
       = registerFormElement (PArr [''main'']) ''b'' (FormControl 2 False) (Overwrite False) demo"
    using t2 b j by simp
  have e1: "getControl demo (PArr [''main'', ''a'']) = Some (FormControl 1 False)"
    by (simp add: demo_def eval_defs)
  have e2: "fst (removeFormElement (PArr [''main'', ''a'']) demo)"
    by (simp add: demo_def eval_defs)
  have e3: "fst (registerFormElement (PArr [''main'']) ''b'' (FormControl 2 False)
               (Overwrite False) demo) \<noteq> None"
    by (simp add: demo_def eval_defs)
  have e4: "getControl demo (PStr ''main.a'') = Some (FormControl 1 False)"
    using t1 a j e1 by simp
  show ?thesis using r g e1 e2 e3 e4 by simp
qed

theorem path_forms_dotted_segment_counterexample:
  "join_dot [''main.a''] = ''main.a''
   \<and> normalizePath (PArr [''main.a'']) = [''main.a'']
   \<and> normalizePath (PStr ''main.a'') = [''main'', ''a'']
   \<and> removeFormElement (PArr [''main.a'']) demo_two = (False, demo_two)
   \<and> removeFormElement (PStr ''main.a'') demo_two
       = (True, demo_two\<lparr>mainForm :=
            FormGroup False [(''main'', FormGroup False [(''b'', FormControl 2 False)])]\<rparr>)"
  by (simp add: demo_two_eq eval_defs)

section \<open>Registration, then lookup\<close>




section \<open>Ordered insertion\<close>

text \<open>
  C3, as amended. Let \<open>registerFormElement\<close> succeed with \<open>insertAtIndex = i\<close>, \<open>i\<close> a
  non-negative integer, on the group \<open>g\<close> at the path (an object, so each of its keys
  occurs once), and let \<open>cs\<close> be the children of \<open>g\<close> at the time of the splice, after the
  removal that \<open>overwrite\<close> causes. If \<open>k\<close> is not among the keys of \<open>cs\<close>, and \<open>k\<close> and the
  keys of \<open>g\<close> are ordinary keys (no array index, that is a canonical decimal numeral,
  which JavaScript enumerates before all other keys, and no name that \<open>Object.prototype\<close>
  has), then after the call the group holds \<open>cs\<close> with the new pair put in before
  position \<open>i\<close>: the new key sits at position \<open>min(i, c)\<close>, \<open>c\<close> the length of \<open>cs\<close>, the
  other children keep their order, and an index of \<open>c\<close> or more appends at the end. (The
  call is one during which no handler calls the service.)
\<close>

theorem insertAtIndex_position:
  assumes "registerFormElement pth k n (Options ov (Some (int i))) s = (Some ev, s')"
    and "is_FormGroup (mainForm s)"
    and "getControl s pth = Some g"
    and "cs = (if contains g k then obj_delete (controls_of g) k else controls_of g)"
    and "k \<notin> fst ` set cs"
    and "distinct (map fst (controls_of g))"
    and "ordinary_key k"
    and "\<forall>e\<in>set (controls_of g). ordinary_key (fst e)"
  shows "\<exists>g'. getControl s' pth = Some g' \<and> is_FormGroup g'
           \<and> controls_of g' = take i cs @ (k, n) # drop i cs
           \<and> length (controls_of g') = Suc (length cs)
           \<and> map fst (controls_of g') ! min i (length cs) = k
           \<and> filter (\<lambda>e. fst e \<noteq> k) (controls_of g') = cs
           \<and> (length cs \<le> i \<longrightarrow> controls_of g' = cs @ [(k, n)])"
proof -
  from registerFormElement_after [OF assms(1,2)] assms(3) obtain g' where
    g': "getControl s' pth = Some g'" "is_FormGroup g'"
    "controls_of g' = registered_controls k n (Options ov (Some (int i))) g"
    by auto
  have d: "distinct (map fst cs)"
    using assms(4,6) by (auto simp: obj_delete_def distinct_map_filter)
  have x: "\<forall>e\<in>set cs. ordinary_key (fst e)"
    using assms(4,8) by (auto simp: obj_delete_def)
  have "registered_controls k n (Options ov (Some (int i))) g = spliced cs (int i) k n"
    using assms(4) by (simp add: registered_controls_def)
  then have eq: "controls_of g' = take i cs @ (k, n) # drop i cs"
    using g'(3) spliced_splice [OF d assms(5,7) x] by simp
  have len: "length (controls_of g') = Suc (length cs)" unfolding eq by simp
  have pos: "map fst (controls_of g') ! min i (length cs) = k"
    unfolding eq by (simp add: nth_append min_def)
  have "filter (\<lambda>e. fst e \<noteq> k) (take i cs) = take i cs"
    "filter (\<lambda>e. fst e \<noteq> k) (drop i cs) = drop i cs"
    using assms(5) by (auto simp: filter_id_conv dest!: in_set_takeD in_set_dropD)
  then have others: "filter (\<lambda>e. fst e \<noteq> k) (controls_of g') = cs" unfolding eq by simp
  show ?thesis using g'(1,2) eq len pos others by auto
qed

theorem insertAtIndex_position_witness:
  "getControl demo (PStr ''main'') = Some (FormGroup False [(''a'', FormControl 1 False)])
   \<and> getControl (snd (registerFormElement (PStr ''main'') ''b'' (FormControl 2 False)
                        (Options None (Some 0)) demo)) (PStr ''main'')
       = Some (FormGroup False [(''b'', FormControl 2 False), (''a'', FormControl 1 False)])"
proof -
  let ?ev = "\<lparr>type = formElement, path = ''main.b'', control = Some (FormControl 2 False)\<rparr>"
  let ?s' = "snd (registerFormElement (PStr ''main'') ''b'' (FormControl 2 False)
                      (Options None (Some (int 0))) demo)"
  let ?g = "FormGroup False [(''a'', FormControl 1 False)]"
  have "fst (registerFormElement (PStr ''main'') ''b'' (FormControl 2 False)
          (Options None (Some (int 0))) demo) = Some ?ev"
    by (simp add: demo_def eval_defs)
  then have 1: "registerFormElement (PStr ''main'') ''b'' (FormControl 2 False)
          (Options None (Some (int 0))) demo = (Some ?ev, ?s')"
    by (simp add: prod_eq_iff)
  have 2: "is_FormGroup (mainForm demo)" by (simp add: demo_def)
  have 3: "getControl demo (PStr ''main'') = Some ?g" by (simp add: demo_def eval_defs)
  have 4: "[(''a'', FormControl 1 False)]
             = (if contains ?g ''b'' then obj_delete (controls_of ?g) ''b'' else controls_of ?g)"
    by simp
  have 5: "''b'' \<notin> fst ` set [(''a'', FormControl 1 False)]" by simp
  have 6: "distinct (map fst (controls_of ?g))" by simp
  have 7: "ordinary_key ''b''" by (simp add: ordinary_key_def eval_defs)
  have 8: "\<forall>e\<in>set (controls_of ?g). ordinary_key (fst e)"
    by (simp add: ordinary_key_def eval_defs)
  from insertAtIndex_position [OF 1 2 3 4 5 6 7 8] obtain g' where
    "getControl ?s' (PStr ''main'') = Some g'" "is_FormGroup g'"
    "controls_of g' = take 0 [(''a'', FormControl 1 False)] @ (''b'', FormControl 2 False)
        # drop 0 [(''a'', FormControl 1 False)]"
    by blast
  moreover have "getControl ?s' (PStr ''main'')
       = Some (FormGroup False [(''b'', FormControl 2 False), (''a'', FormControl 1 False)])"
    by (simp add: demo_def eval_defs)
  ultimately show ?thesis using 3 by simp
qed

theorem insertAtIndex_array_index_counterexample:
  "registerFormElement (PStr ''main'') ''0'' (FormControl 2 False) (Options None (Some 1)) demo
     = (Some \<lparr>type = formElement, path = ''main.0'', control = Some (FormControl 2 False)\<rparr>,
        \<lparr>mainForm = FormGroup False
           [(''main'', FormGroup False [(''0'', FormControl 2 False), (''a'', FormControl 1 False)])],
         formEventSubject =
           [(0, [\<lparr>type = formElement, path = ''main.0'', control = Some (FormControl 2 False)\<rparr>])],
         eventHistory =
           [\<lparr>type = form, path = ''main'', control = None\<rparr>,
            \<lparr>type = formElement, path = ''main.0'', control = Some (FormControl 2 False)\<rparr>]\<rparr>)
   \<and> getControl demo (PStr ''main'') = Some (FormGroup False [(''a'', FormControl 1 False)])
   \<and> map fst [(''0'', FormControl 2 False), (''a'', FormControl 1 False)]
        ! min 1 (length [(''a'', FormControl 1 False)]) = ''a''"
  by (simp add: demo_def eval_defs)

section \<open>A negative index\<close>

lemma obj_delete_absent: "map_of cs k = None \<Longrightarrow> obj_delete cs k = cs"
  by (auto simp: obj_delete_def map_of_eq_None_iff filter_id_conv)

text \<open>
  C9, as amended. With a negative \<open>insertAtIndex\<close>, \<open>registerFormElement\<close> returns the same
  result and the same state as with no \<open>insertAtIndex\<close>, for every input. Where the
  path resolves to a group that has no child \<open>k\<close>, or has an enabled one and \<open>overwrite\<close>
  is set, and \<open>k\<close> is an ordinary key (no array index and no name that
  \<open>Object.prototype\<close> has), the call succeeds and the new control is appended after the
  other children of the group. (The call is one during which no handler calls the
  service.)
\<close>

theorem negative_insertAtIndex:
  assumes "i < 0"
  shows "registerFormElement pth k n (Options ov (Some i)) s
           = registerFormElement pth k n (Options ov None) s
       \<and> (is_FormGroup (mainForm s) \<and> getControl s pth = Some g \<and> is_FormGroup g
            \<and> (find_child g k = None \<or> contains g k \<and> ov = Some True)
            \<and> ordinary_key k \<longrightarrow>
          fst (registerFormElement pth k n (Options ov (Some i)) s)
            = Some \<lparr>type = formElement, path = join_dot (normalizePath pth @ [k]),
                    control = Some n\<rparr>
          \<and> (\<exists>g'. getControl (snd (registerFormElement pth k n (Options ov (Some i)) s)) pth
                      = Some g'
                \<and> is_FormGroup g'
                \<and> controls_of g' = filter (\<lambda>e. fst e \<noteq> k) (controls_of g) @ [(k, n)]))"
proof (intro conjI impI)
  show "registerFormElement pth k n (Options ov (Some i)) s
           = registerFormElement pth k n (Options ov None) s"
    using assms by (simp add: registerFormElement_def Let_def split: option.splits prod.splits)
next
  let ?opts = "Options ov (Some i)"
  let ?res = "registerFormElement pth k n ?opts s"
  let ?ev = "\<lparr>type = formElement, path = join_dot (normalizePath pth @ [k]), control = Some n\<rparr>"
  assume h: "is_FormGroup (mainForm s) \<and> getControl s pth = Some g \<and> is_FormGroup g
            \<and> (find_child g k = None \<or> contains g k \<and> ov = Some True)
            \<and> ordinary_key k"
  have pass: "\<not> contains g k \<or> overwrite_of ?opts" using h by (cases g) auto
  obtain r where r: "getNestedForm s pth = Some (r, g)"
    using h getControl_group [of s pth g] by auto
  have "fst ?res \<noteq> None"
    using r pass by (auto simp: registerFormElement_None_iff getNestedForm_normalize)
  then show ev: "fst ?res = Some ?ev"
    using registerFormElement_cases [of pth k n ?opts s] by auto
  then have "?res = (Some ?ev, snd ?res)" by (simp add: prod_eq_iff)
  from registerFormElement_after [OF this] h obtain g' where
    g': "getControl (snd ?res) pth = Some g'" "is_FormGroup g'"
    "controls_of g' = registered_controls k n ?opts g"
    by auto
  define cs1 where "cs1 = (if contains g k then obj_delete (controls_of g) k else controls_of g)"
  have none: "map_of cs1 k = None"
    using h by (cases g) (auto simp: cs1_def map_of_obj_delete)
  have "cs1 = filter (\<lambda>e. fst e \<noteq> k) (controls_of g)"
  proof (cases "contains g k")
    case True
    then show ?thesis by (simp add: cs1_def obj_delete_def)
  next
    case False
    then have "map_of (controls_of g) k = None" using none by (simp add: cs1_def)
    then show ?thesis using False obj_delete_absent [of "controls_of g" k]
      by (simp add: cs1_def obj_delete_def)
  qed
  moreover have "registered_controls k n ?opts g = cs1 @ [(k, n)]"
    using none assms h by (simp add: registered_controls_def cs1_def obj_add_fresh)
  ultimately show "\<exists>g'. getControl (snd ?res) pth = Some g' \<and> is_FormGroup g'
                \<and> controls_of g' = filter (\<lambda>e. fst e \<noteq> k) (controls_of g) @ [(k, n)]"
    using g' by auto
qed

theorem negative_insertAtIndex_witness:
  "registerFormElement (PStr ''main'') ''b'' (FormControl 2 False) (Options None (Some (- 1))) demo
     = registerFormElement (PStr ''main'') ''b'' (FormControl 2 False) (Options None None) demo
   \<and> fst (registerFormElement (PStr ''main'') ''b'' (FormControl 2 False)
            (Options None (Some (- 1))) demo)
       = Some \<lparr>type = formElement, path = ''main.b'', control = Some (FormControl 2 False)\<rparr>
   \<and> getControl (snd (registerFormElement (PStr ''main'') ''b'' (FormControl 2 False)
                        (Options None (Some (- 1))) demo)) (PStr ''main'')
       = Some (FormGroup False [(''a'', FormControl 1 False), (''b'', FormControl 2 False)])"
proof -
  let ?g = "FormGroup False [(''a'', FormControl 1 False)]"
  have i: "(- 1 :: int) < 0" by simp
  have h: "is_FormGroup (mainForm demo) \<and> getControl demo (PStr ''main'') = Some ?g
       \<and> is_FormGroup ?g \<and> (find_child ?g ''b'' = None \<or> contains ?g ''b'' \<and> None = Some True)
       \<and> ordinary_key ''b''"
    by (simp add: demo_def ordinary_key_def eval_defs)
  note t = negative_insertAtIndex [OF i, of "PStr ''main''" "''b''" "FormControl 2 False" None
      demo ?g]
  have 1: "registerFormElement (PStr ''main'') ''b'' (FormControl 2 False)
        (Options None (Some (- 1))) demo
     = registerFormElement (PStr ''main'') ''b'' (FormControl 2 False) (Options None None) demo"
    using t by (rule conjunct1)
  have 2: "fst (registerFormElement (PStr ''main'') ''b'' (FormControl 2 False)
            (Options None (Some (- 1))) demo)
       = Some \<lparr>type = formElement, path = ''main.b'', control = Some (FormControl 2 False)\<rparr>"
    using t [THEN conjunct2, THEN mp, OF h] by simp
  have 3: "getControl (snd (registerFormElement (PStr ''main'') ''b'' (FormControl 2 False)
                        (Options None None) demo)) (PStr ''main'')
       = Some (FormGroup False [(''a'', FormControl 1 False), (''b'', FormControl 2 False)])"
    by (simp add: demo_def eval_defs)
  show ?thesis using 2 3 unfolding 1 by simp
qed

theorem negative_insertAtIndex_array_index_counterexample:
  "registerFormElement (PStr ''main'') ''0'' (FormControl 2 False) (Options None (Some (- 1))) demo
     = (Some \<lparr>type = formElement, path = ''main.0'', control = Some (FormControl 2 False)\<rparr>,
        \<lparr>mainForm = FormGroup False
           [(''main'', FormGroup False [(''0'', FormControl 2 False), (''a'', FormControl 1 False)])],
         formEventSubject =
           [(0, [\<lparr>type = formElement, path = ''main.0'', control = Some (FormControl 2 False)\<rparr>])],
         eventHistory =
           [\<lparr>type = form, path = ''main'', control = None\<rparr>,
            \<lparr>type = formElement, path = ''main.0'', control = Some (FormControl 2 False)\<rparr>]\<rparr>)
   \<and> getControl demo (PStr ''main'') = Some (FormGroup False [(''a'', FormControl 1 False)])
   \<and> last (map fst [(''0'', FormControl 2 False), (''a'', FormControl 1 False)]) = ''a''"
  by (simp add: demo_def eval_defs)

section \<open>A call that attaches nothing and is logged\<close>

text \<open>
  C4 fails on the code. \<open>registerFormElement\<close> pushes its event whenever it gets past
  its guard, whether or not \<open>addControl\<close> attaches the control. Under a name that
  \<open>Object.prototype\<close> has and the group does not own, \<open>contains\<close> answers false and
  \<open>addControl\<close> attaches nothing, since \<open>this.controls[name]\<close> is truthy: the call
  leaves the group with the children it had, and yet it returns an event and the
  history has one entry more. A disabled control under the key has the same effect
  (see the section on a disabled control under the key).
\<close>

theorem inherited_name_logged:
  assumes "getControl s pth = Some g" and "is_FormGroup g"
    and "inherited k" and "\<forall>e\<in>set (controls_of g). \<not> inherited (fst e)"
  shows "fst (registerFormElement pth k n (Overwrite b) s)
           = Some \<lparr>type = formElement, path = join_dot (normalizePath pth @ [k]),
                   control = Some n\<rparr>
       \<and> getFormEventHistory (snd (registerFormElement pth k n (Overwrite b) s))
           = getFormEventHistory s
               @ [\<lparr>type = formElement, path = join_dot (normalizePath pth @ [k]),
                    control = Some n\<rparr>]
       \<and> (\<exists>g'. getControl (snd (registerFormElement pth k n (Overwrite b) s)) pth = Some g'
             \<and> controls_of g' = controls_of g \<and> find_child g' k = None)"
proof -
  let ?res = "registerFormElement pth k n (Overwrite b) s"
  let ?ev = "\<lparr>type = formElement, path = join_dot (normalizePath pth @ [k]), control = Some n\<rparr>"
  let ?r = "concat (map split_dot (normalizePath pth))"
  have g: "getNestedForm s pth = Some (?r, g)" using assms(1,2) by (rule getControl_group)
  have own: "map_of (controls_of g) k = None"
    using assms(3,4) by (force simp: map_of_eq_None_iff)
  then have nc: "\<not> contains g k" using assms(2) by (cases g) auto
  have "fst ?res \<noteq> None"
    using g nc by (simp add: registerFormElement_None_iff getNestedForm_normalize)
  then have ev: "fst ?res = Some ?ev"
    using registerFormElement_cases [of pth k n "Overwrite b" s] by auto
  have hist: "getFormEventHistory (snd ?res) = getFormEventHistory s @ [?ev]"
    using ev by (simp add: getFormEventHistory_def registerFormElement_events)
  from registerFormElement_group [of s pth ?r g k "Overwrite b" n] g assms(2) nc
  obtain g' where g': "find_path (mainForm (snd ?res)) ?r = Some g'" "is_FormGroup g'"
    "controls_of g' = registered_controls k n (Overwrite b) g"
    by (auto simp: getNestedForm_normalize)
  have "registered_controls k n (Overwrite b) g = controls_of g"
    using nc assms(3) by (simp add: registered_controls_def obj_add_def)
  then have c: "controls_of g' = controls_of g" using g'(3) by simp
  then have "find_child g' k = None" using own g'(2) by (cases g') simp_all
  then have "getControl (snd ?res) pth = Some g' \<and> controls_of g' = controls_of g
      \<and> find_child g' k = None"
    using g'(1) c by (simp add: getControl_eq)
  then show ?thesis using ev hist by blast
qed

theorem inherited_name_logged_witness:
  "getControl demo (PStr ''main'') = Some (FormGroup False [(''a'', FormControl 1 False)])
   \<and> registerFormElement (PStr ''main'') ''toString'' (FormControl 3 False) (Overwrite False) demo
     = (Some \<lparr>type = formElement, path = ''main.toString'', control = Some (FormControl 3 False)\<rparr>,
        \<lparr>mainForm = mainForm demo,
         formEventSubject =
           [(0, [\<lparr>type = formElement, path = ''main.toString'',
                  control = Some (FormControl 3 False)\<rparr>])],
         eventHistory =
           [\<lparr>type = form, path = ''main'', control = None\<rparr>,
            \<lparr>type = formElement, path = ''main.toString'',
              control = Some (FormControl 3 False)\<rparr>]\<rparr>)
   \<and> getControl (snd (registerFormElement (PStr ''main'') ''toString'' (FormControl 3 False)
                        (Overwrite False) demo)) (PStr ''main.toString'') = None"
proof -
  let ?g = "FormGroup False [(''a'', FormControl 1 False)]"
  let ?ev = "\<lparr>type = formElement, path = ''main.toString'',
               control = Some (FormControl 3 False)\<rparr>"
  have 1: "getControl demo (PStr ''main'') = Some ?g" by (simp add: demo_def eval_defs)
  have 2: "is_FormGroup ?g" by simp
  have 3: "inherited ''toString''" by (simp add: eval_defs)
  have 4: "\<forall>e\<in>set (controls_of ?g). \<not> inherited (fst e)" by (simp add: eval_defs)
  have ev: "fst (registerFormElement (PStr ''main'') ''toString'' (FormControl 3 False)
              (Overwrite False) demo) = Some ?ev"
    using inherited_name_logged [OF 1 2 3 4, of "FormControl 3 False" False] by simp
  have st: "snd (registerFormElement (PStr ''main'') ''toString'' (FormControl 3 False)
              (Overwrite False) demo)
      = \<lparr>mainForm = mainForm demo,
         formEventSubject = [(0, [?ev])],
         eventHistory = [\<lparr>type = form, path = ''main'', control = None\<rparr>, ?ev]\<rparr>"
    by (simp add: demo_def eval_defs)
  have no: "getControl (snd (registerFormElement (PStr ''main'') ''toString''
               (FormControl 3 False) (Overwrite False) demo)) (PStr ''main.toString'') = None"
    by (simp add: demo_def eval_defs)
  show ?thesis using 1 ev st no by (simp add: prod_eq_iff)
qed

section \<open>Handlers that only record\<close>






lemma keys_hand_obs [simp]: "map fst (hand_obs e i obs) = map fst obs"
  by (induction obs) (auto simp: hand_obs_def)







section \<open>A late subscriber\<close>




end
